theory Spec2Isabelle
  imports Main "HOL-Library.Multiset" "HOL-Library.Sublist"
begin

section \<open>JavaScript strings\<close>

text \<open>
  A JavaScript string is a sequence of UTF-16 code units. A code unit is a natural
  number below \<open>0x10000\<close>; the functions below are total on all lists of naturals,
  and the theorems state the range where it matters. ASCII literals of the source are
  written \<open>ascii ''...''\<close>; literals outside ASCII are written as code-unit lists.
\<close>

type_synonym jsstring = "nat list"

abbreviation ascii :: "string \<Rightarrow> jsstring" where
  "ascii s \<equiv> map of_char s"

definition is_unit :: "nat \<Rightarrow> bool" where
  "is_unit c = (c < 65536)"

definition is_jsstring :: "jsstring \<Rightarrow> bool" where
  "is_jsstring s = list_all is_unit s"

text \<open>\<open>WhiteSpace\<close> and \<open>LineTerminator\<close> of ECMA-262: what \<open>String.prototype.trim\<close> strips.\<close>

definition is_js_ws :: "nat \<Rightarrow> bool" where
  "is_js_ws c = (c \<in> set [9, 10, 11, 12, 13, 32, 160, 5760, 8232, 8233, 8239, 8287, 12288, 65279]
                 \<or> (8192 \<le> c \<and> c \<le> 8202))"

definition trim :: "jsstring \<Rightarrow> jsstring" where
  "trim s = rev (dropWhile is_js_ws (rev (dropWhile is_js_ws s)))"

text \<open>\<open>s.split(sep)\<close> for a one-unit separator: the empty string splits to \<open>[""]\<close>.\<close>

fun split_on :: "nat \<Rightarrow> jsstring \<Rightarrow> jsstring list" where
  "split_on sep [] = [[]]"
| "split_on sep (c # cs) =
     (if c = sep then [] # split_on sep cs
      else (case split_on sep cs of
              [] \<Rightarrow> [[c]]
            | w # ws \<Rightarrow> (c # w) # ws))"

text \<open>\<open>Array.prototype.join\<close> on an array of strings.\<close>

fun join :: "jsstring \<Rightarrow> jsstring list \<Rightarrow> jsstring" where
  "join sep [] = []"
| "join sep [x] = x"
| "join sep (x # y # ys) = x @ sep @ join sep (y # ys)"

text \<open>\<open>hay.includes(q)\<close>: \<open>q\<close> occurs in \<open>hay\<close> as a contiguous run of code units.\<close>

definition str_includes :: "jsstring \<Rightarrow> jsstring \<Rightarrow> bool" where
  "str_includes hay q = sublist q hay"

text \<open>Digits of a natural number in a base, most significant first (\<open>toString(radix)\<close>).\<close>

function to_base :: "nat \<Rightarrow> nat \<Rightarrow> nat list" where
  "to_base b n = (if n < b \<or> b < 2 then [n] else to_base b (n div b) @ [n mod b])"
  by pat_completeness auto
termination
  by (relation "measure (\<lambda>(b, n). n)") auto

declare to_base.simps [simp del]

definition digit_char :: "nat \<Rightarrow> nat" where
  "digit_char d = (if d < 10 then 48 + d else 87 + d)"

definition upper_digit_char :: "nat \<Rightarrow> nat" where
  "upper_digit_char d = (if d < 10 then 48 + d else 55 + d)"

definition is_digit :: "nat \<Rightarrow> bool" where
  "is_digit c = (48 \<le> c \<and> c \<le> 57)"

definition from_digits :: "nat list \<Rightarrow> nat" where
  "from_digits ds = foldl (\<lambda>acc d. acc * 10 + d) 0 ds"

definition digits_value :: "jsstring \<Rightarrow> nat" where
  "digits_value cs = from_digits (map (\<lambda>c. c - 48) cs)"

definition nat_to_string :: "nat \<Rightarrow> jsstring" where
  "nat_to_string n = map digit_char (to_base 10 n)"

text \<open>\<open>toUpperCase\<close> on the output of \<open>toString(36)\<close>: digits and lower-case ASCII letters.\<close>

definition upper_unit :: "nat \<Rightarrow> nat" where
  "upper_unit c = (if 97 \<le> c \<and> c \<le> 122 then c - 32 else c)"

section \<open>JavaScript numbers and values\<close>

text \<open>
  Numbers are modelled exactly: an integer, or a decimal fraction \<open>Decimal m k\<close> standing
  for \<open>m / 10 ^ k\<close> with \<open>0 < k\<close> and \<open>m\<close> not divisible by ten, or one of the three
  special values. Every number literal of JSON denotes such a value. The rounding of an
  IEEE double and the negative zero are not modelled; the model agrees with the
  engine on the integers of magnitude below \<open>2 ^ 53\<close>, which is where the timestamps
  of the program live.
\<close>

datatype jsnum = NaN | PosInf | NegInf | Integer int | Decimal int nat

fun mk_dec :: "int \<Rightarrow> nat \<Rightarrow> jsnum" where
  "mk_dec m 0 = Integer m"
| "mk_dec m (Suc k) = (if m mod 10 = 0 then mk_dec (m div 10) k else Decimal m (Suc k))"

fun scaled :: "jsnum \<Rightarrow> (int \<times> nat) option" where
  "scaled (Integer n) = Some (n, 0)"
| "scaled (Decimal m k) = Some (m, k)"
| "scaled _ = None"

fun num_neg :: "jsnum \<Rightarrow> jsnum" where
  "num_neg NaN = NaN"
| "num_neg PosInf = NegInf"
| "num_neg NegInf = PosInf"
| "num_neg (Integer n) = Integer (- n)"
| "num_neg (Decimal m k) = Decimal (- m) k"

text \<open>The binary \<open>-\<close> on numbers.\<close>

fun num_sub :: "jsnum \<Rightarrow> jsnum \<Rightarrow> jsnum" where
  "num_sub NaN _ = NaN"
| "num_sub _ NaN = NaN"
| "num_sub PosInf PosInf = NaN"
| "num_sub NegInf NegInf = NaN"
| "num_sub PosInf _ = PosInf"
| "num_sub NegInf _ = NegInf"
| "num_sub _ PosInf = NegInf"
| "num_sub _ NegInf = PosInf"
| "num_sub a b =
     (case (scaled a, scaled b) of
        (Some (m1, k1), Some (m2, k2)) \<Rightarrow>
          mk_dec (m1 * 10 ^ (max k1 k2 - k1) - m2 * 10 ^ (max k1 k2 - k2)) (max k1 k2)
      | _ \<Rightarrow> NaN)"

text \<open>The sign of a number as a comparator result is read: positive, negative, or neither.\<close>

fun num_pos :: "jsnum \<Rightarrow> bool" where
  "num_pos PosInf = True"
| "num_pos (Integer n) = (0 < n)"
| "num_pos (Decimal m k) = (0 < m)"
| "num_pos _ = False"

fun num_negative :: "jsnum \<Rightarrow> bool" where
  "num_negative NegInf = True"
| "num_negative (Integer n) = (n < 0)"
| "num_negative (Decimal m k) = (m < 0)"
| "num_negative _ = False"

text \<open>
  \<open>Number::toString\<close> in radix ten. With \<open>ds\<close> the significant digits and \<open>n\<close> the
  position of the decimal point: plain digits when \<open>0 < n \<le> 21\<close>, a leading
  \<open>0.\<close> when \<open>-6 < n \<le> 0\<close>, exponent notation otherwise.
\<close>

definition exp_notation :: "nat list \<Rightarrow> int \<Rightarrow> jsstring" where
  "exp_notation ds n =
     (case ds of
        [] \<Rightarrow> []
      | d # rest \<Rightarrow>
          digit_char d # (if rest = [] then [] else 46 # map digit_char rest)
          @ [101, (if 0 \<le> n - 1 then 43 else 45)] @ nat_to_string (nat \<bar>n - 1\<bar>))"

definition strip_zeros :: "nat list \<Rightarrow> nat list" where
  "strip_zeros ds = rev (dropWhile (\<lambda>d. d = 0) (rev ds))"

definition pos_int_to_string :: "nat \<Rightarrow> jsstring" where
  "pos_int_to_string n =
     (let ds = to_base 10 n in
      if length ds \<le> 21 then map digit_char ds
      else exp_notation (strip_zeros ds) (int (length ds)))"

definition pos_dec_to_string :: "nat \<Rightarrow> nat \<Rightarrow> jsstring" where
  "pos_dec_to_string m k =
     (let ds = to_base 10 m; n = int (length ds) - int k in
      if 0 < n \<and> n \<le> 21 then map digit_char (take (nat n) ds) @ [46] @ map digit_char (drop (nat n) ds)
      else if - 6 < n \<and> n \<le> 0 then [48, 46] @ replicate (nat (- n)) 48 @ map digit_char ds
      else exp_notation ds n)"

fun num_to_string :: "jsnum \<Rightarrow> jsstring" where
  "num_to_string NaN = ascii ''NaN''"
| "num_to_string PosInf = ascii ''Infinity''"
| "num_to_string NegInf = ascii ''-Infinity''"
| "num_to_string (Integer n) =
     (if n < 0 then 45 # pos_int_to_string (nat (- n)) else pos_int_to_string (nat n))"
| "num_to_string (Decimal m k) =
     (if m < 0 then 45 # pos_dec_to_string (nat (- m)) k else pos_dec_to_string (nat m) k)"

text \<open>
  The values JSON can denote, and \<open>undefined\<close>. An object is its own properties in
  enumeration order. Arrays and objects are compared by structure; the identity of
  object references is not modelled.
\<close>

datatype jsval =
    JUndefined
  | JNull
  | JBool bool
  | JNum jsnum
  | JStr jsstring
  | JArr "jsval list"
  | JObj "(jsstring \<times> jsval) list"

datatype error =
    TypeError | SyntaxError | URIError | InvalidCharacterError | SecurityError
  | QuotaExceededError | FormatError

fun truthy :: "jsval \<Rightarrow> bool" where
  "truthy JUndefined = False"
| "truthy JNull = False"
| "truthy (JBool b) = b"
| "truthy (JNum n) = (n \<noteq> NaN \<and> n \<noteq> Integer 0)"
| "truthy (JStr s) = (s \<noteq> [])"
| "truthy (JArr _) = True"
| "truthy (JObj _) = True"

text \<open>\<open>a || b\<close>.\<close>

definition js_or :: "jsval \<Rightarrow> jsval \<Rightarrow> jsval" where
  "js_or a b = (if truthy a then a else b)"

text \<open>
  \<open>v.k\<close> for the property names the program reads from an item (\<open>id\<close>, \<open>title\<close>,
  \<open>content\<close>, \<open>caution\<close>, \<open>tags\<close>, \<open>createdAt\<close>, \<open>updatedAt\<close>): a property read on
  \<open>null\<close> or \<open>undefined\<close> throws, an object yields its own property, and no other
  value of JSON has a property of these names.
\<close>

fun get_prop :: "jsval \<Rightarrow> jsstring \<Rightarrow> error + jsval" where
  "get_prop JUndefined k = Inl TypeError"
| "get_prop JNull k = Inl TypeError"
| "get_prop (JObj kvs) k = (case map_of kvs k of None \<Rightarrow> Inr JUndefined | Some v \<Rightarrow> Inr v)"
| "get_prop _ k = Inr JUndefined"

text \<open>
  An array index as a property key: the canonical decimal string of an integer below
  \<open>2 ^ 32 - 1\<close>. Such keys are enumerated first, in ascending order; the other keys
  follow in the order of their creation.
\<close>

definition array_index :: "jsstring \<Rightarrow> nat option" where
  "array_index k =
     (if k \<noteq> [] \<and> list_all is_digit k \<and> (hd k \<noteq> 48 \<or> length k = 1) \<and> digits_value k < 4294967295
      then Some (digits_value k) else None)"

fun insert_index :: "nat \<Rightarrow> jsstring \<Rightarrow> jsval \<Rightarrow> (jsstring \<times> jsval) list \<Rightarrow> (jsstring \<times> jsval) list" where
  "insert_index i k v [] = [(k, v)]"
| "insert_index i k v ((k', v') # rest) =
     (case array_index k' of
        None \<Rightarrow> (k, v) # (k', v') # rest
      | Some j \<Rightarrow> if i < j then (k, v) # (k', v') # rest else (k', v') # insert_index i k v rest)"

text \<open>\<open>CreateDataProperty\<close>: an existing key keeps its place and takes the new value.\<close>

definition obj_put :: "(jsstring \<times> jsval) list \<Rightarrow> jsstring \<Rightarrow> jsval \<Rightarrow> (jsstring \<times> jsval) list" where
  "obj_put kvs k v =
     (if k \<in> fst ` set kvs then map (\<lambda>(k', v'). if k' = k then (k', v) else (k', v')) kvs
      else (case array_index k of
              None \<Rightarrow> kvs @ [(k, v)]
            | Some i \<Rightarrow> insert_index i k v kvs))"

text \<open>An object literal \<open>{k1: v1, ...}\<close>, and the spread \<open>{...v, k1: v1, ...}\<close>.\<close>

definition obj_literal :: "(jsstring \<times> jsval) list \<Rightarrow> (jsstring \<times> jsval) list \<Rightarrow> jsval" where
  "obj_literal base kvs = JObj (foldl (\<lambda>acc (k, v). obj_put acc k v) base kvs)"

fun own_props :: "jsval \<Rightarrow> (jsstring \<times> jsval) list" where
  "own_props (JObj kvs) = kvs"
| "own_props (JArr xs) = map (\<lambda>(i, x). (nat_to_string i, x)) (zip [0 ..< length xs] xs)"
| "own_props (JStr s) = map (\<lambda>(i, c). (nat_to_string i, JStr [c])) (zip [0 ..< length s] s)"
| "own_props _ = []"

section \<open>Conversions\<close>

text \<open>
  \<open>ToString\<close>, as \<open>String(v)\<close>, a template literal and \<open>Array.prototype.join\<close> apply
  it. An array is its elements joined by commas, \<open>null\<close> and \<open>undefined\<close> elements
  giving the empty string. A plain object is \<open>[object Object]\<close> through the inherited
  \<open>toString\<close>; an object of JSON with an own property \<open>toString\<close> (never callable)
  has no primitive value and the conversion throws.
\<close>

fun ToString :: "jsval \<Rightarrow> error + jsstring"
  and element_strings :: "jsval list \<Rightarrow> error + jsstring list" where
  "ToString JUndefined = Inr (ascii ''undefined'')"
| "ToString JNull = Inr (ascii ''null'')"
| "ToString (JBool b) = Inr (if b then ascii ''true'' else ascii ''false'')"
| "ToString (JNum n) = Inr (num_to_string n)"
| "ToString (JStr s) = Inr s"
| "ToString (JArr xs) =
     (case element_strings xs of Inl e \<Rightarrow> Inl e | Inr ss \<Rightarrow> Inr (join [44] ss))"
| "ToString (JObj kvs) =
     (if ascii ''toString'' \<in> fst ` set kvs then Inl TypeError
      else Inr (ascii ''[object Object]''))"
| "element_strings [] = Inr []"
| "element_strings (x # xs) =
     (case (if x = JUndefined \<or> x = JNull then Inr [] else ToString x) of
        Inl e \<Rightarrow> Inl e
      | Inr s \<Rightarrow> (case element_strings xs of Inl e \<Rightarrow> Inl e | Inr ss \<Rightarrow> Inr (s # ss)))"

text \<open>
  \<open>StringToNumber\<close>: white space is trimmed; the empty string is zero; then
  \<open>Infinity\<close> with an optional sign, a decimal literal with an optional sign
  (\<open>12\<close>, \<open>1.5\<close>, \<open>.5\<close>, \<open>5.\<close>, \<open>1e3\<close>), or an unsigned literal in base 16, 8 or 2;
  anything else is \<open>NaN\<close>.
\<close>

definition hex_val :: "nat \<Rightarrow> nat option" where
  "hex_val c =
     (if 48 \<le> c \<and> c \<le> 57 then Some (c - 48)
      else if 97 \<le> c \<and> c \<le> 102 then Some (c - 87)
      else if 65 \<le> c \<and> c \<le> 70 then Some (c - 55)
      else None)"

definition radix_value :: "nat \<Rightarrow> jsstring \<Rightarrow> nat option" where
  "radix_value b cs =
     (if cs \<noteq> [] \<and> list_all (\<lambda>c. case hex_val c of None \<Rightarrow> False | Some d \<Rightarrow> d < b) cs
      then Some (foldl (\<lambda>acc c. acc * b + the (hex_val c)) 0 cs) else None)"

text \<open>
  The value of a decimal literal from its integer digits, its fraction digits and its
  exponent. The value is the exact integer or decimal here and the nearest double in
  the engine; the two agree on the integers of magnitude below \<open>2 ^ 53\<close>, which the
  timestamps of the data model are.
\<close>

definition decimal_value :: "jsstring \<Rightarrow> jsstring \<Rightarrow> int \<Rightarrow> jsnum" where
  "decimal_value ip fp e =
     (let m = int (digits_value (ip @ fp)); x = e - int (length fp) in
      if 0 \<le> x then Integer (m * 10 ^ nat x) else mk_dec m (nat (- x)))"

text \<open>
  An exponent part \<open>e\<close>, \<open>e+\<close> or \<open>e-\<close> with its digits: the exponent and the rest, or
  \<open>None\<close> when an \<open>e\<close> is followed by no digit. No exponent part is the exponent zero.
\<close>

definition exponent_part :: "jsstring \<Rightarrow> (int \<times> jsstring) option" where
  "exponent_part s =
     (case s of
        [] \<Rightarrow> Some (0, s)
      | c # t \<Rightarrow>
          if c = 101 \<or> c = 69 then
            (let neg = (t \<noteq> [] \<and> hd t = 45);
                 t' = (if t \<noteq> [] \<and> (hd t = 45 \<or> hd t = 43) then tl t else t);
                 ds = takeWhile is_digit t' in
             if ds = [] then None
             else Some ((if neg then - int (digits_value ds) else int (digits_value ds)),
                        dropWhile is_digit t'))
          else Some (0, s))"

definition unsigned_decimal :: "jsstring \<Rightarrow> jsnum" where
  "unsigned_decimal s =
     (let ip = takeWhile is_digit s; r1 = dropWhile is_digit s;
          dot = (r1 \<noteq> [] \<and> hd r1 = 46);
          fp = (if dot then takeWhile is_digit (tl r1) else []);
          r2 = (if dot then dropWhile is_digit (tl r1) else r1) in
      if ip = [] \<and> fp = [] then NaN
      else (case exponent_part r2 of
              None \<Rightarrow> NaN
            | Some (e, r3) \<Rightarrow> if r3 = [] then decimal_value ip fp e else NaN))"

definition StringToNumber :: "jsstring \<Rightarrow> jsnum" where
  "StringToNumber str =
     (let s = trim str in
      if s = [] then Integer 0
      else if s = ascii ''Infinity'' \<or> s = ascii ''+Infinity'' then PosInf
      else if s = ascii ''-Infinity'' then NegInf
      else if take 2 s \<in> {ascii ''0x'', ascii ''0X''} then
        (case radix_value 16 (drop 2 s) of None \<Rightarrow> NaN | Some n \<Rightarrow> Integer (int n))
      else if take 2 s \<in> {ascii ''0o'', ascii ''0O''} then
        (case radix_value 8 (drop 2 s) of None \<Rightarrow> NaN | Some n \<Rightarrow> Integer (int n))
      else if take 2 s \<in> {ascii ''0b'', ascii ''0B''} then
        (case radix_value 2 (drop 2 s) of None \<Rightarrow> NaN | Some n \<Rightarrow> Integer (int n))
      else if hd s = 45 then num_neg (unsigned_decimal (tl s))
      else if hd s = 43 then unsigned_decimal (tl s)
      else unsigned_decimal s)"

text \<open>
  \<open>ToNumber\<close>, as \<open>Number(v)\<close> and the operands of \<open>-\<close> apply it. An array converts
  through its string; a plain object is \<open>NaN\<close>, and throws when it has an own property
  \<open>toString\<close>.
\<close>

fun ToNumber :: "jsval \<Rightarrow> error + jsnum" where
  "ToNumber JUndefined = Inr NaN"
| "ToNumber JNull = Inr (Integer 0)"
| "ToNumber (JBool b) = Inr (Integer (if b then 1 else 0))"
| "ToNumber (JNum n) = Inr n"
| "ToNumber (JStr s) = Inr (StringToNumber s)"
| "ToNumber (JArr xs) =
     (case ToString (JArr xs) of Inl e \<Rightarrow> Inl e | Inr s \<Rightarrow> Inr (StringToNumber s))"
| "ToNumber (JObj kvs) =
     (if ascii ''toString'' \<in> fst ` set kvs then Inl TypeError else Inr NaN)"

text \<open>
  \<open>a === b\<close>: \<open>NaN\<close> equals nothing. Arrays and objects are compared by structure here,
  by reference in the engine; the ids of the program are strings.
\<close>

fun strict_eq :: "jsval \<Rightarrow> jsval \<Rightarrow> bool" where
  "strict_eq (JNum a) (JNum b) = (a \<noteq> NaN \<and> a = b)"
| "strict_eq a b = (a = b)"

section \<open>JSON\<close>

definition is_high_surrogate :: "nat \<Rightarrow> bool" where
  "is_high_surrogate c = (55296 \<le> c \<and> c \<le> 56319)"

definition is_low_surrogate :: "nat \<Rightarrow> bool" where
  "is_low_surrogate c = (56320 \<le> c \<and> c \<le> 57343)"

definition hex4 :: "nat \<Rightarrow> jsstring" where
  "hex4 c = map digit_char [c div 4096 mod 16, c div 256 mod 16, c div 16 mod 16, c mod 16]"

definition unicode_escape :: "nat \<Rightarrow> jsstring" where
  "unicode_escape c = [92, 117] @ hex4 c"

text \<open>
  \<open>QuoteJSONString\<close> without the enclosing quotes: the two-character escapes, a
  \<open>\u\<close> escape with lower-case digits for the other control characters and for a
  surrogate that has no partner, every other code unit as it is.
\<close>

fun quote_units :: "jsstring \<Rightarrow> jsstring" where
  "quote_units [] = []"
| "quote_units (c # cs) =
     (if c = 8 then [92, 98] @ quote_units cs
      else if c = 9 then [92, 116] @ quote_units cs
      else if c = 10 then [92, 110] @ quote_units cs
      else if c = 12 then [92, 102] @ quote_units cs
      else if c = 13 then [92, 114] @ quote_units cs
      else if c = 34 then [92, 34] @ quote_units cs
      else if c = 92 then [92, 92] @ quote_units cs
      else if c < 32 then unicode_escape c @ quote_units cs
      else if is_high_surrogate c then
        (case cs of
           [] \<Rightarrow> unicode_escape c
         | d # ds \<Rightarrow>
             if is_low_surrogate d then c # d # quote_units ds
             else unicode_escape c @ quote_units cs)
      else if is_low_surrogate c then unicode_escape c @ quote_units cs
      else c # quote_units cs)"

definition quote :: "jsstring \<Rightarrow> jsstring" where
  "quote s = [34] @ quote_units s @ [34]"

definition num_finite :: "jsnum \<Rightarrow> bool" where
  "num_finite n = (n \<noteq> NaN \<and> n \<noteq> PosInf \<and> n \<noteq> NegInf)"

text \<open>
  \<open>JSON.stringify(v)\<close> with no replacer and no indentation. The result is \<open>None\<close>
  for \<open>undefined\<close>; an \<open>undefined\<close> element of an array is written \<open>null\<close>, an
  \<open>undefined\<close> property of an object is left out. No value of the model is callable
  or cyclic, so nothing throws.
\<close>

fun JSON_stringify :: "jsval \<Rightarrow> jsstring option"
  and stringify_elements :: "jsval list \<Rightarrow> jsstring list"
  and stringify_members :: "(jsstring \<times> jsval) list \<Rightarrow> jsstring list" where
  "JSON_stringify JUndefined = None"
| "JSON_stringify JNull = Some (ascii ''null'')"
| "JSON_stringify (JBool b) = Some (if b then ascii ''true'' else ascii ''false'')"
| "JSON_stringify (JNum n) = Some (if num_finite n then num_to_string n else ascii ''null'')"
| "JSON_stringify (JStr s) = Some (quote s)"
| "JSON_stringify (JArr xs) = Some ([91] @ join [44] (stringify_elements xs) @ [93])"
| "JSON_stringify (JObj kvs) = Some ([123] @ join [44] (stringify_members kvs) @ [125])"
| "stringify_elements [] = []"
| "stringify_elements (x # xs) =
     (case JSON_stringify x of None \<Rightarrow> ascii ''null'' | Some s \<Rightarrow> s) # stringify_elements xs"
| "stringify_members [] = []"
| "stringify_members ((k, v) # kvs) =
     (case JSON_stringify v of
        None \<Rightarrow> stringify_members kvs
      | Some s \<Rightarrow> (quote k @ [58] @ s) # stringify_members kvs)"

text \<open>
  \<open>JSON.parse(text)\<close> with no reviver: a recursive-descent parser of the JSON grammar.
  Every call consumes input or fuel, and the length of the text is fuel enough.
\<close>

definition is_json_ws :: "nat \<Rightarrow> bool" where
  "is_json_ws c = (c = 9 \<or> c = 10 \<or> c = 13 \<or> c = 32)"

definition skip_ws :: "jsstring \<Rightarrow> jsstring" where
  "skip_ws s = dropWhile is_json_ws s"

definition starts :: "nat \<Rightarrow> jsstring \<Rightarrow> bool" where
  "starts c s = (s \<noteq> [] \<and> hd s = c)"

definition escape_char :: "nat \<Rightarrow> nat option" where
  "escape_char e =
     (if e = 34 then Some 34 else if e = 92 then Some 92 else if e = 47 then Some 47
      else if e = 98 then Some 8 else if e = 102 then Some 12 else if e = 110 then Some 10
      else if e = 114 then Some 13 else if e = 116 then Some 9 else None)"

definition hex4_value :: "nat \<Rightarrow> nat \<Rightarrow> nat \<Rightarrow> nat \<Rightarrow> nat option" where
  "hex4_value a b c d =
     (case hex_val a of
        None \<Rightarrow> None
      | Some w \<Rightarrow>
          (case hex_val b of
             None \<Rightarrow> None
           | Some x \<Rightarrow>
               (case hex_val c of
                  None \<Rightarrow> None
                | Some y \<Rightarrow>
                    (case hex_val d of
                       None \<Rightarrow> None
                     | Some z \<Rightarrow> Some (((w * 16 + x) * 16 + y) * 16 + z)))))"

definition cons_unit :: "nat \<Rightarrow> (jsstring \<times> jsstring) option \<Rightarrow> (jsstring \<times> jsstring) option" where
  "cons_unit u r = map_option (\<lambda>(s, rest). (u # s, rest)) r"

text \<open>The characters of a string after its opening quote, up to the closing quote.\<close>

fun parse_string_body :: "jsstring \<Rightarrow> (jsstring \<times> jsstring) option" where
  "parse_string_body [] = None"
| "parse_string_body (c # cs) =
     (if c = 34 then Some ([], cs)
      else if c = 92 then
        (case cs of
           [] \<Rightarrow> None
         | e # es \<Rightarrow>
             if e = 117 then
               (case es of
                  h1 # h2 # h3 # h4 # r \<Rightarrow>
                    (case hex4_value h1 h2 h3 h4 of
                       None \<Rightarrow> None
                     | Some u \<Rightarrow> cons_unit u (parse_string_body r))
                | _ \<Rightarrow> None)
             else
               (case escape_char e of
                  None \<Rightarrow> None
                | Some u \<Rightarrow> cons_unit u (parse_string_body es)))
      else if c < 32 then None
      else cons_unit c (parse_string_body cs))"

text \<open>
  A number: an optional minus, an integer part with no leading zero, an optional
  fraction with at least one digit, an optional exponent.
\<close>

definition parse_unsigned_number :: "jsstring \<Rightarrow> (jsnum \<times> jsstring) option" where
  "parse_unsigned_number s =
     (let ip = takeWhile is_digit s; r1 = dropWhile is_digit s;
          dot = starts 46 r1;
          fp = (if dot then takeWhile is_digit (tl r1) else []);
          r2 = (if dot then dropWhile is_digit (tl r1) else r1) in
      if ip = [] \<or> (1 < length ip \<and> hd ip = 48) \<or> (dot \<and> fp = []) then None
      else (case exponent_part r2 of
              None \<Rightarrow> None
            | Some (e, r3) \<Rightarrow> Some (decimal_value ip fp e, r3)))"

definition parse_number :: "jsstring \<Rightarrow> (jsnum \<times> jsstring) option" where
  "parse_number s =
     (if starts 45 s
      then (case parse_unsigned_number (tl s) of
              None \<Rightarrow> None
            | Some (n, r) \<Rightarrow> Some (num_neg n, r))
      else parse_unsigned_number s)"

fun parse_value :: "nat \<Rightarrow> jsstring \<Rightarrow> (jsval \<times> jsstring) option"
  and parse_elements :: "nat \<Rightarrow> jsstring \<Rightarrow> (jsval list \<times> jsstring) option"
  and parse_members :: "nat \<Rightarrow> (jsstring \<times> jsval) list \<Rightarrow> jsstring \<Rightarrow> (jsval \<times> jsstring) option" where
  "parse_value 0 s = None"
| "parse_value (Suc f) s =
     (case skip_ws s of
        [] \<Rightarrow> None
      | c # cs \<Rightarrow>
          if c = 34 then
            (case parse_string_body cs of None \<Rightarrow> None | Some (str, r) \<Rightarrow> Some (JStr str, r))
          else if c = 91 then
            (if starts 93 (skip_ws cs) then Some (JArr [], tl (skip_ws cs))
             else (case parse_elements f cs of None \<Rightarrow> None | Some (vs, r) \<Rightarrow> Some (JArr vs, r)))
          else if c = 123 then
            (if starts 125 (skip_ws cs) then Some (JObj [], tl (skip_ws cs))
             else parse_members f [] cs)
          else if take 4 (c # cs) = ascii ''true'' then Some (JBool True, drop 4 (c # cs))
          else if take 5 (c # cs) = ascii ''false'' then Some (JBool False, drop 5 (c # cs))
          else if take 4 (c # cs) = ascii ''null'' then Some (JNull, drop 4 (c # cs))
          else (case parse_number (c # cs) of None \<Rightarrow> None | Some (n, r) \<Rightarrow> Some (JNum n, r)))"
| "parse_elements 0 s = None"
| "parse_elements (Suc f) s =
     (case parse_value f s of
        None \<Rightarrow> None
      | Some (v, r) \<Rightarrow>
          if starts 44 (skip_ws r) then
            (case parse_elements f (tl (skip_ws r)) of
               None \<Rightarrow> None
             | Some (vs, r') \<Rightarrow> Some (v # vs, r'))
          else if starts 93 (skip_ws r) then Some ([v], tl (skip_ws r))
          else None)"
| "parse_members 0 acc s = None"
| "parse_members (Suc f) acc s =
     (if starts 34 (skip_ws s) then
        (case parse_string_body (tl (skip_ws s)) of
           None \<Rightarrow> None
         | Some (k, r1) \<Rightarrow>
             if starts 58 (skip_ws r1) then
               (case parse_value f (tl (skip_ws r1)) of
                  None \<Rightarrow> None
                | Some (v, r3) \<Rightarrow>
                    if starts 44 (skip_ws r3) then parse_members f (obj_put acc k v) (tl (skip_ws r3))
                    else if starts 125 (skip_ws r3) then Some (JObj (obj_put acc k v), tl (skip_ws r3))
                    else None)
             else None)
      else None)"

definition JSON_parse :: "jsstring \<Rightarrow> error + jsval" where
  "JSON_parse text =
     (case parse_value (Suc (length text)) text of
        None \<Rightarrow> Inl SyntaxError
      | Some (v, r) \<Rightarrow> if skip_ws r = [] then Inr v else Inl SyntaxError)"

section \<open>The codec's platform functions\<close>

definition ebind :: "error + 'a \<Rightarrow> ('a \<Rightarrow> error + 'b) \<Rightarrow> error + 'b" where
  "ebind m f = (case m of Inl e \<Rightarrow> Inl e | Inr x \<Rightarrow> f x)"

definition prepend :: "jsstring \<Rightarrow> error + jsstring \<Rightarrow> error + jsstring" where
  "prepend pre r = (case r of Inl e \<Rightarrow> Inl e | Inr s \<Rightarrow> Inr (pre @ s))"

text \<open>UTF-8 of a code point, and UTF-16 of a code point.\<close>

definition utf8_encode :: "nat \<Rightarrow> nat list" where
  "utf8_encode cp =
     (if cp < 128 then [cp]
      else if cp < 2048 then [192 + cp div 64, 128 + cp mod 64]
      else if cp < 65536 then [224 + cp div 4096, 128 + cp div 64 mod 64, 128 + cp mod 64]
      else [240 + cp div 262144, 128 + cp div 4096 mod 64, 128 + cp div 64 mod 64, 128 + cp mod 64])"

definition utf16_encode :: "nat \<Rightarrow> jsstring" where
  "utf16_encode v =
     (if v < 65536 then [v]
      else [55296 + (v - 65536) div 1024, 56320 + (v - 65536) mod 1024])"

definition surrogate_pair :: "nat \<Rightarrow> nat \<Rightarrow> nat" where
  "surrogate_pair hi lo = 65536 + (hi - 55296) * 1024 + (lo - 56320)"

definition pct_byte :: "nat \<Rightarrow> jsstring" where
  "pct_byte b = [37, upper_digit_char (b div 16), upper_digit_char (b mod 16)]"

definition pct :: "nat list \<Rightarrow> jsstring" where
  "pct bs = concat (map pct_byte bs)"

definition is_alnum :: "nat \<Rightarrow> bool" where
  "is_alnum c = ((65 \<le> c \<and> c \<le> 90) \<or> (97 \<le> c \<and> c \<le> 122) \<or> (48 \<le> c \<and> c \<le> 57))"

text \<open>The characters \<open>encodeURIComponent\<close> leaves alone: letters, digits and \<open>-_.!~*'()\<close>.\<close>

definition uri_unreserved :: "nat \<Rightarrow> bool" where
  "uri_unreserved c = (is_alnum c \<or> c \<in> set [45, 95, 46, 33, 126, 42, 39, 40, 41])"

text \<open>
  \<open>encodeURIComponent(s)\<close>: every other code point is written as the percent-escapes of
  its UTF-8 bytes; a surrogate with no partner throws \<open>URIError\<close>.
\<close>

fun encodeURIComponent :: "jsstring \<Rightarrow> error + jsstring" where
  "encodeURIComponent [] = Inr []"
| "encodeURIComponent (c # cs) =
     (if uri_unreserved c then prepend [c] (encodeURIComponent cs)
      else if is_low_surrogate c then Inl URIError
      else if is_high_surrogate c then
        (case cs of
           [] \<Rightarrow> Inl URIError
         | d # ds \<Rightarrow>
             if is_low_surrogate d
             then prepend (pct (utf8_encode (surrogate_pair c d))) (encodeURIComponent ds)
             else Inl URIError)
      else prepend (pct (utf8_encode c)) (encodeURIComponent cs))"

text \<open>
  \<open>unescape(s)\<close>: \<open>%uXXXX\<close> and \<open>%XX\<close> become the code unit of that value; a \<open>%\<close>
  followed by anything else stays.
\<close>

definition hex_run :: "nat \<Rightarrow> jsstring \<Rightarrow> nat option" where
  "hex_run n cs = (if n \<le> length cs then radix_value 16 (take n cs) else None)"

function unescape :: "jsstring \<Rightarrow> jsstring" where
  "unescape [] = []"
| "unescape (c # cs) =
     (if c = 37 \<and> starts 117 cs \<and> hex_run 4 (tl cs) \<noteq> None
      then the (hex_run 4 (tl cs)) # unescape (drop 5 cs)
      else if c = 37 \<and> hex_run 2 cs \<noteq> None
      then the (hex_run 2 cs) # unescape (drop 2 cs)
      else c # unescape cs)"
  by pat_completeness auto
termination
  by (relation "measure length") auto

text \<open>The characters \<open>escape\<close> leaves alone: letters, digits and \<open>@*_+-./\<close>.\<close>

definition escape_unreserved :: "nat \<Rightarrow> bool" where
  "escape_unreserved c = (is_alnum c \<or> c \<in> set [64, 42, 95, 43, 45, 46, 47])"

definition escape_unit :: "nat \<Rightarrow> jsstring" where
  "escape_unit c =
     (if escape_unreserved c then [c]
      else if c < 256 then pct_byte c
      else [37, 117] @ map upper_digit_char [c div 4096 mod 16, c div 256 mod 16, c div 16 mod 16, c mod 16])"

definition escape :: "jsstring \<Rightarrow> jsstring" where
  "escape s = concat (map escape_unit s)"

text \<open>
  The number of bytes a UTF-8 sequence has by its first byte: the count of leading one
  bits (zero for an ASCII byte, one for a continuation byte, five for \<open>0xF8\<close> and up).
\<close>

definition leading_ones :: "nat \<Rightarrow> nat" where
  "leading_ones b =
     (if b < 128 then 0 else if b < 192 then 1 else if b < 224 then 2
      else if b < 240 then 3 else if b < 248 then 4 else 5)"

definition is_cont :: "nat \<Rightarrow> bool" where
  "is_cont b = (128 \<le> b \<and> b < 192)"

text \<open>
  The code point of a well-formed UTF-8 sequence: continuation bytes in range, no
  overlong form, no surrogate, nothing above \<open>0x10FFFF\<close>.
\<close>

definition utf8_decode :: "nat list \<Rightarrow> nat option" where
  "utf8_decode bs =
     (case bs of
        [a, b] \<Rightarrow>
          (let v = (a - 192) * 64 + (b - 128) in
           if 192 \<le> a \<and> a < 224 \<and> is_cont b \<and> 128 \<le> v then Some v else None)
      | [a, b, c] \<Rightarrow>
          (let v = ((a - 224) * 64 + (b - 128)) * 64 + (c - 128) in
           if 224 \<le> a \<and> a < 240 \<and> is_cont b \<and> is_cont c \<and> 2048 \<le> v
              \<and> \<not> (55296 \<le> v \<and> v \<le> 57343) then Some v else None)
      | [a, b, c, d] \<Rightarrow>
          (let v = (((a - 240) * 64 + (b - 128)) * 64 + (c - 128)) * 64 + (d - 128) in
           if 240 \<le> a \<and> a < 248 \<and> is_cont b \<and> is_cont c \<and> is_cont d \<and> 65536 \<le> v
              \<and> v \<le> 1114111 then Some v else None)
      | _ \<Rightarrow> None)"

text \<open>\<open>n\<close> percent-escapes \<open>%XX\<close> at the head of a string: their bytes.\<close>

fun pct_octets :: "nat \<Rightarrow> jsstring \<Rightarrow> nat list option" where
  "pct_octets 0 s = Some []"
| "pct_octets (Suc n) s =
     (if starts 37 s \<and> hex_run 2 (tl s) \<noteq> None then
        (case pct_octets n (drop 3 s) of
           None \<Rightarrow> None
         | Some bs \<Rightarrow> Some (the (hex_run 2 (tl s)) # bs))
      else None)"

text \<open>
  \<open>decodeURIComponent(s)\<close>: a \<open>%XX\<close> below \<open>0x80\<close> is that character; a lead byte
  takes its continuation escapes, and the bytes must be the UTF-8 of a code point;
  everything else throws \<open>URIError\<close>.
\<close>

function decodeURIComponent :: "jsstring \<Rightarrow> error + jsstring" where
  "decodeURIComponent [] = Inr []"
| "decodeURIComponent (c # cs) =
     (if c \<noteq> 37 then prepend [c] (decodeURIComponent cs)
      else (case hex_run 2 cs of
              None \<Rightarrow> Inl URIError
            | Some b \<Rightarrow>
                if leading_ones b = 0 then prepend [b] (decodeURIComponent (drop 2 cs))
                else if leading_ones b = 1 \<or> 4 < leading_ones b then Inl URIError
                else (case pct_octets (leading_ones b - 1) (drop 2 cs) of
                        None \<Rightarrow> Inl URIError
                      | Some bs \<Rightarrow>
                          (case utf8_decode (b # bs) of
                             None \<Rightarrow> Inl URIError
                           | Some v \<Rightarrow>
                               prepend (utf16_encode v)
                                 (decodeURIComponent (drop (2 + 3 * (leading_ones b - 1)) cs))))))"
  by pat_completeness auto
termination
  by (relation "measure length") auto

text \<open>\<open>btoa(s)\<close>: base64 with padding of a string of bytes; a code unit above 255 throws.\<close>

definition b64_char :: "nat \<Rightarrow> nat" where
  "b64_char i =
     (if i < 26 then 65 + i else if i < 52 then 71 + i else if i < 62 then i - 4
      else if i = 62 then 43 else 47)"

fun b64_encode :: "nat list \<Rightarrow> jsstring" where
  "b64_encode [] = []"
| "b64_encode [a] = [b64_char (a div 4), b64_char (a mod 4 * 16), 61, 61]"
| "b64_encode [a, b] =
     [b64_char (a div 4), b64_char (a mod 4 * 16 + b div 16), b64_char (b mod 16 * 4), 61]"
| "b64_encode (a # b # c # r) =
     [b64_char (a div 4), b64_char (a mod 4 * 16 + b div 16),
      b64_char (b mod 16 * 4 + c div 64), b64_char (c mod 64)] @ b64_encode r"

definition btoa :: "jsstring \<Rightarrow> error + jsstring" where
  "btoa s = (if list_all (\<lambda>c. c < 256) s then Inr (b64_encode s) else Inl InvalidCharacterError)"

text \<open>
  \<open>atob(s)\<close>, the forgiving base64 decoding of the HTML standard: ASCII white space is
  removed first, then one or two padding characters when the length is a multiple of
  four; a length of one modulo four or a character outside the alphabet throws.
\<close>

definition is_ascii_ws :: "nat \<Rightarrow> bool" where
  "is_ascii_ws c = (c = 9 \<or> c = 10 \<or> c = 12 \<or> c = 13 \<or> c = 32)"

definition b64_val :: "nat \<Rightarrow> nat option" where
  "b64_val c =
     (if 65 \<le> c \<and> c \<le> 90 then Some (c - 65)
      else if 97 \<le> c \<and> c \<le> 122 then Some (c - 71)
      else if 48 \<le> c \<and> c \<le> 57 then Some (c + 4)
      else if c = 43 then Some 62
      else if c = 47 then Some 63
      else None)"

fun b64_decode :: "nat list \<Rightarrow> nat list" where
  "b64_decode (w # x # y # z # r) =
     [w * 4 + x div 16, x mod 16 * 16 + y div 4, y mod 4 * 64 + z] @ b64_decode r"
| "b64_decode [w, x, y] = [w * 4 + x div 16, x mod 16 * 16 + y div 4]"
| "b64_decode [w, x] = [w * 4 + x div 16]"
| "b64_decode _ = []"

definition strip_padding :: "jsstring \<Rightarrow> jsstring" where
  "strip_padding s =
     (if length s mod 4 = 0 \<and> s \<noteq> [] \<and> last s = 61 then
        (if butlast s \<noteq> [] \<and> last (butlast s) = 61 then butlast (butlast s) else butlast s)
      else s)"

definition atob :: "jsstring \<Rightarrow> error + jsstring" where
  "atob s =
     (let d = strip_padding (filter (\<lambda>c. \<not> is_ascii_ws c) s) in
      if length d mod 4 = 1 \<or> \<not> list_all (\<lambda>c. b64_val c \<noteq> None) d then Inl InvalidCharacterError
      else Inr (b64_decode (map (\<lambda>c. the (b64_val c)) d)))"

section \<open>The share-link codec\<close>

text \<open>
  \<^verbatim>\<open>function encodeData(obj) {
    const json = JSON.stringify(obj);
    return btoa(unescape(encodeURIComponent(json)));
  }
  function decodeData(b64) {
    const json = decodeURIComponent(escape(atob(b64)));
    return JSON.parse(json);
  }\<close>
  \<open>encodeURIComponent\<close> converts its argument to a string, so the \<open>undefined\<close> that
  \<open>JSON.stringify\<close> returns for \<open>undefined\<close> becomes the text \<open>undefined\<close>.
\<close>

definition encodeData :: "jsval \<Rightarrow> error + jsstring" where
  "encodeData obj =
     (let json = (case JSON_stringify obj of None \<Rightarrow> ascii ''undefined'' | Some s \<Rightarrow> s) in
      ebind (encodeURIComponent json) (\<lambda>e. btoa (unescape e)))"

definition decodeData :: "jsstring \<Rightarrow> error + jsval" where
  "decodeData b64 =
     ebind (atob b64) (\<lambda>bin. ebind (decodeURIComponent (escape bin)) JSON_parse)"

section \<open>Query strings\<close>

text \<open>
  \<open>new URLSearchParams(search).get(key)\<close>, the \<open>application/x-www-form-urlencoded\<close>
  parser of the URL standard: the text is read as UTF-8 bytes, a leading \<open>?\<close> is
  dropped, the pairs are separated by \<open>&\<close> and split at their first \<open>=\<close>; in a name
  and in a value a \<open>+\<close> becomes a space, percent-escapes become bytes, and the bytes
  are decoded as UTF-8, an ill-formed sequence giving \<open>U+FFFD\<close>.
\<close>

fun code_points :: "jsstring \<Rightarrow> nat list" where
  "code_points [] = []"
| "code_points (c # cs) =
     (if is_high_surrogate c then
        (case cs of
           [] \<Rightarrow> [65533]
         | d # ds \<Rightarrow>
             if is_low_surrogate d then surrogate_pair c d # code_points ds
             else 65533 # code_points cs)
      else if is_low_surrogate c then 65533 # code_points cs
      else c # code_points cs)"

definition utf8_bytes :: "jsstring \<Rightarrow> nat list" where
  "utf8_bytes s = concat (map utf8_encode (code_points s))"

function percent_decode :: "nat list \<Rightarrow> nat list" where
  "percent_decode [] = []"
| "percent_decode (b # bs) =
     (if b = 37 \<and> hex_run 2 bs \<noteq> None then the (hex_run 2 bs) # percent_decode (drop 2 bs)
      else b # percent_decode bs)"
  by pat_completeness auto
termination
  by (relation "measure length") auto

text \<open>
  The UTF-8 decoder of the Encoding standard, as a state machine over the bytes: the
  code point so far, the bytes still needed, and the bounds of the next byte.
\<close>

fun utf8_lossy :: "nat \<Rightarrow> nat \<Rightarrow> nat \<Rightarrow> nat \<Rightarrow> nat list \<Rightarrow> nat list" where
  "utf8_lossy cp 0 lo up [] = []"
| "utf8_lossy cp (Suc n) lo up [] = [65533]"
| "utf8_lossy cp 0 lo up (b # bs) =
     (if b < 128 then b # utf8_lossy 0 0 128 191 bs
      else if 194 \<le> b \<and> b \<le> 223 then utf8_lossy (b - 192) 1 128 191 bs
      else if 224 \<le> b \<and> b \<le> 239 then
        utf8_lossy (b - 224) 2 (if b = 224 then 160 else 128) (if b = 237 then 159 else 191) bs
      else if 240 \<le> b \<and> b \<le> 244 then
        utf8_lossy (b - 240) 3 (if b = 240 then 144 else 128) (if b = 244 then 143 else 191) bs
      else 65533 # utf8_lossy 0 0 128 191 bs)"
| "utf8_lossy cp (Suc n) lo up (b # bs) =
     (if lo \<le> b \<and> b \<le> up then
        (if n = 0 then (cp * 64 + (b - 128)) # utf8_lossy 0 0 128 191 bs
         else utf8_lossy (cp * 64 + (b - 128)) n 128 191 bs)
      else 65533 # utf8_lossy 0 0 128 191 (b # bs))"

definition form_decode :: "nat list \<Rightarrow> jsstring" where
  "form_decode bs =
     concat (map utf16_encode
       (utf8_lossy 0 0 128 191 (percent_decode (map (\<lambda>b. if b = 43 then 32 else b) bs))))"

definition URLSearchParams :: "jsstring \<Rightarrow> (jsstring \<times> jsstring) list" where
  "URLSearchParams search =
     map (\<lambda>seq. (form_decode (takeWhile (\<lambda>b. b \<noteq> 61) seq),
                 form_decode (drop 1 (dropWhile (\<lambda>b. b \<noteq> 61) seq))))
       (filter (\<lambda>seq. seq \<noteq> [])
         (split_on 38 (utf8_bytes (if starts 63 search then tl search else search))))"

text \<open>
  \<^verbatim>\<open>function getQueryParam(key) {
    const params = new URLSearchParams(window.location.search);
    return params.get(key);
  }\<close>
  with \<open>window.location.search\<close> as an argument. The result is the first value of the
  key, or \<open>null\<close>.
\<close>

definition getQueryParam :: "jsstring \<Rightarrow> jsstring \<Rightarrow> jsval" where
  "getQueryParam search key =
     (case map_of (URLSearchParams search) key of None \<Rightarrow> JNull | Some v \<Rightarrow> JStr v)"

text \<open>
  The query string of the link the share button builds,
  \<^verbatim>\<open>`${location.origin}${location.pathname}?data=${b64}`\<close>: the token is embedded as
  it is.
\<close>

definition share_search :: "jsstring \<Rightarrow> jsstring" where
  "share_search b64 = ascii ''?data='' @ b64"

section \<open>Persistence\<close>

definition STORAGE_KEY :: jsstring where
  "STORAGE_KEY = ascii ''exerciseListV1''"

text \<open>
  \<open>localStorage\<close>: either the browser refuses access (every use throws), or it is a
  map from keys to texts.
\<close>

datatype storage = Blocked | Entries "jsstring \<Rightarrow> jsstring option"

definition getItem :: "storage \<Rightarrow> jsstring \<Rightarrow> error + jsval" where
  "getItem store k =
     (case store of
        Blocked \<Rightarrow> Inl SecurityError
      | Entries m \<Rightarrow> Inr (case m k of None \<Rightarrow> JNull | Some v \<Rightarrow> JStr v))"

text \<open>
  \<^verbatim>\<open>function loadData() {
    try {
      const raw = localStorage.getItem(STORAGE_KEY);
      if (!raw) return [];
      const parsed = JSON.parse(raw);
      return Array.isArray(parsed) ? parsed : [];
    } catch {
      return [];
    }
  }\<close>
  \<open>loadData_try\<close> is the body of the \<open>try\<close>; \<open>loadData\<close> adds the \<open>catch\<close>.
\<close>

definition loadData_try :: "storage \<Rightarrow> error + jsval list" where
  "loadData_try store =
     ebind (getItem store STORAGE_KEY) (\<lambda>raw.
       if \<not> truthy raw then Inr []
       else ebind (ebind (ToString raw) JSON_parse) (\<lambda>parsed.
              Inr (case parsed of JArr xs \<Rightarrow> xs | _ \<Rightarrow> [])))"

definition loadData :: "storage \<Rightarrow> jsval list" where
  "loadData store = (case loadData_try store of Inl e \<Rightarrow> [] | Inr xs \<Rightarrow> xs)"

text \<open>
  \<^verbatim>\<open>function saveData(list) {
    try {
      localStorage.setItem(STORAGE_KEY, JSON.stringify(list));
    } catch {}
  }\<close>
  \<open>accepted\<close> says whether the browser takes the write (it throws when the quota is
  exceeded).
\<close>

definition saveData :: "bool \<Rightarrow> jsval list \<Rightarrow> storage \<Rightarrow> storage" where
  "saveData accepted list store =
     (case store of
        Blocked \<Rightarrow> Blocked
      | Entries m \<Rightarrow>
          if accepted
          then Entries (m(STORAGE_KEY \<mapsto>
                 (case JSON_stringify (JArr list) of None \<Rightarrow> ascii ''undefined'' | Some s \<Rightarrow> s)))
          else Entries m)"

section \<open>The application\<close>

text \<open>
  The state of the component \<open>App\<close>: the list of items and the form's variables, as
  \<open>useState\<close> declares them. An item is a value as it came from the form, from
  storage, from an imported file or from a link. What the environment answers (the
  clock, the random source, a confirmation dialog) is an argument of the operation
  that asks.
\<close>

record app_state =
  items :: "jsval list"
  query :: jsstring
  sortKey :: jsstring
  selectedId :: jsval
  modalOpen :: bool
  editingId :: jsval
  title :: jsstring
  content :: jsstring
  caution :: jsstring
  link :: jsstring
  tagsText :: jsstring

text \<open>
  What an event handler does: it finishes with a new state, or it shows an alert and
  changes nothing, or an exception leaves it.
\<close>

datatype 'a outcome = Done 'a | Alert jsstring | Throws error

fun map_e :: "('a \<Rightarrow> error + 'b) \<Rightarrow> 'a list \<Rightarrow> error + 'b list" where
  "map_e f [] = Inr []"
| "map_e f (x # xs) =
     (case f x of
        Inl e \<Rightarrow> Inl e
      | Inr y \<Rightarrow> (case map_e f xs of Inl e \<Rightarrow> Inl e | Inr ys \<Rightarrow> Inr (y # ys)))"

fun filter_e :: "('a \<Rightarrow> error + bool) \<Rightarrow> 'a list \<Rightarrow> error + 'a list" where
  "filter_e p [] = Inr []"
| "filter_e p (x # xs) =
     (case p x of
        Inl e \<Rightarrow> Inl e
      | Inr b \<Rightarrow>
          (case filter_e p xs of
             Inl e \<Rightarrow> Inl e
           | Inr ys \<Rightarrow> Inr (if b then x # ys else ys)))"

text \<open>
  \<^verbatim>\<open>function uid() {
    return (Date.now().toString(36) + Math.random().toString(36).slice(2, 8)).toUpperCase();
  }\<close>
  \<open>now\<close> is what \<open>Date.now()\<close> returns and \<open>rnd\<close> what
  \<open>Math.random().toString(36).slice(2, 8)\<close> returns, at most six digits of base 36.
\<close>

definition uid :: "nat \<Rightarrow> jsstring \<Rightarrow> jsstring" where
  "uid now rnd = map upper_unit (map digit_char (to_base 36 now) @ rnd)"

text \<open>
  The tags of the form:
  \<^verbatim>\<open>tagsText.split(",").map((s) => s.trim()).filter(Boolean)\<close>
\<close>

definition form_tags :: "jsstring \<Rightarrow> jsstring list" where
  "form_tags text = filter (\<lambda>s. s \<noteq> []) (map trim (split_on 44 text))"

definition title_required :: jsstring where
  "title_required = [51228, 47785, 51008, 32, 54596, 49688, 51077, 45768, 45796, 46]"

text \<open>
  The item \<open>handleSave\<close> builds for a new entry:
  \<^verbatim>\<open>{ id, title: t, content, caution, link, tags, createdAt: now, updatedAt: now }\<close>
\<close>

definition new_item :: "jsstring \<Rightarrow> jsstring \<Rightarrow> app_state \<Rightarrow> nat \<Rightarrow> jsval" where
  "new_item new_id t st now =
     obj_literal []
       [(ascii ''id'', JStr new_id),
        (ascii ''title'', JStr t),
        (ascii ''content'', JStr (content st)),
        (ascii ''caution'', JStr (caution st)),
        (ascii ''link'', JStr (link st)),
        (ascii ''tags'', JArr (map JStr (form_tags (tagsText st)))),
        (ascii ''createdAt'', JNum (Integer (int now))),
        (ascii ''updatedAt'', JNum (Integer (int now)))]"

text \<open>
  The function \<open>handleSave\<close> maps over the list when an item is edited:
  \<^verbatim>\<open>it.id === editingId
    ? { ...it, title: t, content, caution, link, tags, updatedAt: now }
    : it\<close>
\<close>

definition edit_item :: "app_state \<Rightarrow> jsstring \<Rightarrow> nat \<Rightarrow> jsval \<Rightarrow> error + jsval" where
  "edit_item st t now it =
     ebind (get_prop it (ascii ''id'')) (\<lambda>i.
       Inr (if strict_eq i (editingId st)
            then obj_literal (own_props it)
                   [(ascii ''title'', JStr t),
                    (ascii ''content'', JStr (content st)),
                    (ascii ''caution'', JStr (caution st)),
                    (ascii ''link'', JStr (link st)),
                    (ascii ''tags'', JArr (map JStr (form_tags (tagsText st)))),
                    (ascii ''updatedAt'', JNum (Integer (int now)))]
            else it))"

text \<open>
  \<open>handleSave\<close>. \<open>now\<close> is its own reading of the clock; \<open>uid_now\<close> and \<open>rnd\<close> are
  what the call of \<open>uid\<close> reads. An empty title is answered by an alert and an early
  return. Then either the item named by \<open>editingId\<close> is rewritten in place, or a new
  item is put in front of the list.
\<close>

definition handleSave :: "nat \<Rightarrow> nat \<Rightarrow> jsstring \<Rightarrow> app_state \<Rightarrow> app_state outcome" where
  "handleSave now uid_now rnd st =
     (let t = trim (title st) in
      if t = [] then Alert title_required
      else if truthy (editingId st) then
        (case map_e (edit_item st t now) (items st) of
           Inl e \<Rightarrow> Throws e
         | Inr items' \<Rightarrow>
             Done (st\<lparr>items := items', selectedId := editingId st, modalOpen := False\<rparr>))
      else
        Done (st\<lparr>items := new_item (uid uid_now rnd) t st now # items st,
                  selectedId := JStr (uid uid_now rnd),
                  modalOpen := False\<rparr>))"

text \<open>
  \<^verbatim>\<open>function handleDelete(item) {
    if (!confirm(`...[${item.title}]`)) return;
    setItems((prev) => prev.filter((it) => it.id !== item.id));
    if (selectedId === item.id) setSelectedId(null);
  }\<close>
\<close>

definition handleDelete :: "bool \<Rightarrow> jsval \<Rightarrow> app_state \<Rightarrow> app_state outcome" where
  "handleDelete confirmed item st =
     (case ebind (get_prop item (ascii ''title'')) ToString of
        Inl e \<Rightarrow> Throws e
      | Inr shown \<Rightarrow>
          if \<not> confirmed then Done st
          else
            (case get_prop item (ascii ''id'') of
               Inl e \<Rightarrow> Throws e
             | Inr i \<Rightarrow>
                 (case filter_e (\<lambda>it. ebind (get_prop it (ascii ''id'')) (\<lambda>j. Inr (\<not> strict_eq j i)))
                         (items st) of
                    Inl e \<Rightarrow> Throws e
                  | Inr items' \<Rightarrow>
                      Done (st\<lparr>items := items',
                                selectedId :=
                                  (if strict_eq (selectedId st) i then JNull else selectedId st)\<rparr>))))"

section \<open>Search and sort\<close>

text \<open>\<open>v.join(sep)\<close>: only an array has the method.\<close>

definition js_join :: "jsstring \<Rightarrow> jsval \<Rightarrow> error + jsstring" where
  "js_join sep v =
     (case v of
        JArr xs \<Rightarrow> (case element_strings xs of Inl e \<Rightarrow> Inl e | Inr ss \<Rightarrow> Inr (join sep ss))
      | _ \<Rightarrow> Inl TypeError)"

text \<open>
  The text an item is searched in:
  \<^verbatim>\<open>`${it.title}\n${it.content || ""}\n${it.caution || ""}\n${(it.tags || []).join(" ")}`
     .toLowerCase()\<close>
  \<open>toLowerCase\<close> is the platform's Unicode case mapping, an argument of the model.
\<close>

definition haystack :: "(jsstring \<Rightarrow> jsstring) \<Rightarrow> jsval \<Rightarrow> error + jsstring" where
  "haystack toLowerCase it =
     ebind (get_prop it (ascii ''title'')) (\<lambda>t. ebind (ToString t) (\<lambda>ts.
     ebind (get_prop it (ascii ''content'')) (\<lambda>c. ebind (ToString (js_or c (JStr []))) (\<lambda>cs.
     ebind (get_prop it (ascii ''caution'')) (\<lambda>ca. ebind (ToString (js_or ca (JStr []))) (\<lambda>cas.
     ebind (get_prop it (ascii ''tags'')) (\<lambda>tg. ebind (js_join [32] (js_or tg (JArr []))) (\<lambda>tgs.
       Inr (toLowerCase (ts @ [10] @ cs @ [10] @ cas @ [10] @ tgs))))))))))"

text \<open>
  The first half of \<open>filtered\<close>:
  \<^verbatim>\<open>const q = query.trim().toLowerCase();
  const base = q ? items.filter((it) => { ...; return hay.includes(q); }) : items;\<close>
\<close>

definition filter_items :: "(jsstring \<Rightarrow> jsstring) \<Rightarrow> jsval list \<Rightarrow> jsstring \<Rightarrow> error + jsval list" where
  "filter_items toLowerCase list q_text =
     (let q = toLowerCase (trim q_text) in
      if q \<noteq> []
      then filter_e (\<lambda>it. ebind (haystack toLowerCase it) (\<lambda>hay. Inr (str_includes hay q))) list
      else Inr list)"

text \<open>
  The comparator of the sort:
  \<^verbatim>\<open>(a, b) => {
    if (sortKey === "title") return a.title.localeCompare(b.title, "ko");
    return (b[sortKey] || 0) - (a[sortKey] || 0);
  }\<close>
  \<open>localeCompare\<close> is the platform's collation, an argument of the model.
\<close>

definition compare_items ::
  "(jsstring \<Rightarrow> jsstring \<Rightarrow> jsnum) \<Rightarrow> jsstring \<Rightarrow> jsval \<Rightarrow> jsval \<Rightarrow> error + jsnum" where
  "compare_items localeCompare key a b =
     (if key = ascii ''title'' then
        ebind (get_prop a (ascii ''title'')) (\<lambda>ta.
          case ta of
            JStr sa \<Rightarrow>
              ebind (get_prop b (ascii ''title'')) (\<lambda>tb.
                ebind (ToString tb) (\<lambda>sb. Inr (localeCompare sa sb)))
          | _ \<Rightarrow> Inl TypeError)
      else
        ebind (get_prop b key) (\<lambda>bv.
        ebind (get_prop a key) (\<lambda>av.
        ebind (ToNumber (js_or bv (JNum (Integer 0)))) (\<lambda>bn.
        ebind (ToNumber (js_or av (JNum (Integer 0)))) (\<lambda>an.
          Inr (num_sub bn an))))))"

text \<open>
  \<open>Array.prototype.sort\<close> with a comparator: a stable sort, here by insertion. An
  element moves behind another only when the comparator says so with a positive
  number. Where the comparator is no ordering the engine's result is its own.
\<close>

fun insert_sorted :: "('a \<Rightarrow> 'a \<Rightarrow> error + jsnum) \<Rightarrow> 'a \<Rightarrow> 'a list \<Rightarrow> error + 'a list" where
  "insert_sorted cmp x [] = Inr [x]"
| "insert_sorted cmp x (y # ys) =
     (case cmp x y of
        Inl e \<Rightarrow> Inl e
      | Inr v \<Rightarrow>
          if num_pos v
          then (case insert_sorted cmp x ys of Inl e \<Rightarrow> Inl e | Inr r \<Rightarrow> Inr (y # r))
          else Inr (x # y # ys))"

fun sort_by :: "('a \<Rightarrow> 'a \<Rightarrow> error + jsnum) \<Rightarrow> 'a list \<Rightarrow> error + 'a list" where
  "sort_by cmp [] = Inr []"
| "sort_by cmp (x # xs) =
     (case sort_by cmp xs of Inl e \<Rightarrow> Inl e | Inr r \<Rightarrow> insert_sorted cmp x r)"

text \<open>
  The second half of \<open>filtered\<close>: \<^verbatim>\<open>[...base].sort(...)\<close>, a sorted copy.
\<close>

definition sort_items ::
  "(jsstring \<Rightarrow> jsstring \<Rightarrow> jsnum) \<Rightarrow> jsstring \<Rightarrow> jsval list \<Rightarrow> error + jsval list" where
  "sort_items localeCompare key base = sort_by (compare_items localeCompare key) base"

definition filtered ::
  "(jsstring \<Rightarrow> jsstring) \<Rightarrow> (jsstring \<Rightarrow> jsstring \<Rightarrow> jsnum) \<Rightarrow> app_state \<Rightarrow> error + jsval list" where
  "filtered toLowerCase localeCompare st =
     ebind (filter_items toLowerCase (items st) (query st))
       (sort_items localeCompare (sortKey st))"

text \<open>
  The same computation with the arrays in a store, to see what is written where. An
  array is named by its address; \<open>filter\<close> and the spread \<open>[...base]\<close> make a new
  array, \<open>sort\<close> writes into the array it is called on. With a blank query \<open>base\<close>
  is the array of the state itself.
\<close>

type_synonym store = "jsval list list"

definition alloc :: "jsval list \<Rightarrow> store \<Rightarrow> nat \<times> store" where
  "alloc xs h = (length h, h @ [xs])"

definition sort_in_place ::
  "(jsstring \<Rightarrow> jsstring \<Rightarrow> jsnum) \<Rightarrow> jsstring \<Rightarrow> nat \<Rightarrow> store \<Rightarrow> error + store" where
  "sort_in_place localeCompare key a h =
     ebind (sort_items localeCompare key (h ! a)) (\<lambda>ys. Inr (h[a := ys]))"

text \<open>\<^verbatim>\<open>[...base].sort(...)\<close>: the address of the sorted copy and the store after.\<close>

definition sorted_copy ::
  "(jsstring \<Rightarrow> jsstring \<Rightarrow> jsnum) \<Rightarrow> jsstring \<Rightarrow> nat \<Rightarrow> store \<Rightarrow> error + nat \<times> store" where
  "sorted_copy localeCompare key base h =
     (case alloc (h ! base) h of
        (a, h1) \<Rightarrow> ebind (sort_in_place localeCompare key a h1) (\<lambda>h2. Inr (a, h2)))"

definition filtered_in_store ::
  "(jsstring \<Rightarrow> jsstring) \<Rightarrow> (jsstring \<Rightarrow> jsstring \<Rightarrow> jsnum) \<Rightarrow> jsstring \<Rightarrow> jsstring \<Rightarrow> nat
     \<Rightarrow> store \<Rightarrow> error + nat \<times> store" where
  "filtered_in_store toLowerCase localeCompare q_text key items_at h =
     (if toLowerCase (trim q_text) \<noteq> [] then
        ebind (filter_items toLowerCase (h ! items_at) q_text) (\<lambda>kept.
          case alloc kept h of (base, h1) \<Rightarrow> sorted_copy localeCompare key base h1)
      else sorted_copy localeCompare key items_at h)"

section \<open>Import and share links\<close>

text \<open>
  What the calls \<open>uid()\<close> and \<open>Date.now()\<close> return while one imported record is
  rebuilt; each is read only where the record lacks the value.
\<close>

record reads =
  uid_value :: jsstring
  created_now :: nat
  updated_now :: nat

definition untitled :: jsstring where
  "untitled = [47924, 51228]"

definition import_failed :: jsstring where
  "import_failed =
     [44032, 51256, 50724, 44592, 32, 49892, 54056, 58, 32, 50976, 54952, 54620, 32, 74, 83, 79,
      78, 32, 54028, 51068, 51060, 32, 50500, 45785, 45768, 45796, 46]"

text \<open>The filter of the import: \<^verbatim>\<open>(d) => d && d.id && d.title\<close>.\<close>

definition keep_record :: "jsval \<Rightarrow> bool" where
  "keep_record d =
     (truthy d \<and>
      (case get_prop d (ascii ''id'') of
         Inl e \<Rightarrow> False
       | Inr i \<Rightarrow>
           truthy i \<and>
           (case get_prop d (ascii ''title'') of Inl e \<Rightarrow> False | Inr t \<Rightarrow> truthy t)))"

text \<open>
  The map of the import:
  \<^verbatim>\<open>(d) => ({
    id: d.id || uid(),
    title: String(d.title || "..."),
    content: String(d.content || ""),
    caution: String(d.caution || ""),
    link: String(d.link || ""),
    tags: Array.isArray(d.tags) ? d.tags.map(String) : [],
    createdAt: Number(d.createdAt) || Date.now(),
    updatedAt: Number(d.updatedAt) || Date.now(),
  })\<close>
\<close>

definition sanitize :: "reads \<Rightarrow> jsval \<Rightarrow> error + jsval" where
  "sanitize r d =
     ebind (get_prop d (ascii ''id'')) (\<lambda>i.
     ebind (get_prop d (ascii ''title'')) (\<lambda>t. ebind (ToString (js_or t (JStr untitled))) (\<lambda>ts.
     ebind (get_prop d (ascii ''content'')) (\<lambda>c. ebind (ToString (js_or c (JStr []))) (\<lambda>cs.
     ebind (get_prop d (ascii ''caution'')) (\<lambda>ca. ebind (ToString (js_or ca (JStr []))) (\<lambda>cas.
     ebind (get_prop d (ascii ''link'')) (\<lambda>l. ebind (ToString (js_or l (JStr []))) (\<lambda>ls.
     ebind (get_prop d (ascii ''tags'')) (\<lambda>tg.
     ebind (case tg of JArr xs \<Rightarrow> map_e ToString xs | _ \<Rightarrow> Inr []) (\<lambda>tgs.
     ebind (get_prop d (ascii ''createdAt'')) (\<lambda>cr. ebind (ToNumber cr) (\<lambda>crn.
     ebind (get_prop d (ascii ''updatedAt'')) (\<lambda>up. ebind (ToNumber up) (\<lambda>upn.
       Inr (obj_literal []
         [(ascii ''id'', js_or i (JStr (uid_value r))),
          (ascii ''title'', JStr ts),
          (ascii ''content'', JStr cs),
          (ascii ''caution'', JStr cas),
          (ascii ''link'', JStr ls),
          (ascii ''tags'', JArr (map JStr tgs)),
          (ascii ''createdAt'', js_or (JNum crn) (JNum (Integer (int (created_now r))))),
          (ascii ''updatedAt'', js_or (JNum upn) (JNum (Integer (int (updated_now r)))))]
       ))))))))))))))))"

text \<open>
  \<open>importJSON\<close>, from the text of the file on: parse, refuse what is no array, keep
  and rebuild the records, replace the list. Any exception ends in the alert of the
  \<open>catch\<close> and leaves the list as it was. \<open>rd k\<close> are the readings for the \<open>k\<close>-th
  record kept.
\<close>

definition import_records :: "(nat \<Rightarrow> reads) \<Rightarrow> jsval \<Rightarrow> error + jsval list" where
  "import_records rd data =
     (case data of
        JArr ds \<Rightarrow>
          map_e (\<lambda>(k, d). sanitize (rd k) d)
            (zip [0 ..< length (filter keep_record ds)] (filter keep_record ds))
      | _ \<Rightarrow> Inl FormatError)"

definition importJSON :: "(nat \<Rightarrow> reads) \<Rightarrow> jsstring \<Rightarrow> app_state \<Rightarrow> app_state outcome" where
  "importJSON rd text st =
     (case ebind (JSON_parse text) (import_records rd) of
        Inl e \<Rightarrow> Alert import_failed
      | Inr safe \<Rightarrow> Done (st\<lparr>items := safe\<rparr>))"

text \<open>
  The effect that runs once when the page opens, with \<open>window.location.search\<close> and
  the answer to the confirmation dialog as arguments:
  \<^verbatim>\<open>const q = getQueryParam("data");
  if (!q) return;
  try {
    const incoming = decodeData(q);
    if (!Array.isArray(incoming)) return;
    if (confirm("...")) {
      setItems(incoming);
    }
  } catch (e) {
    console.warn("...", e);
  } finally {
    setQueryParam("data", null);
  }\<close>
  The decoded array becomes the list as it is.
\<close>

definition share_link_effect :: "bool \<Rightarrow> jsstring \<Rightarrow> app_state \<Rightarrow> app_state" where
  "share_link_effect confirmed search st =
     (let q = getQueryParam search (ascii ''data'') in
      if \<not> truthy q then st
      else (case ebind (ToString q) decodeData of
              Inl e \<Rightarrow> st
            | Inr incoming \<Rightarrow>
                (case incoming of
                   JArr xs \<Rightarrow> if confirmed then st\<lparr>items := xs\<rparr> else st
                 | _ \<Rightarrow> st)))"

text \<open>
  The button that loads from a pasted link. What the user pasted is read by
  \<open>new URL(raw)\<close>, which is not modelled: the argument is the outcome of that step.
\<close>

datatype pasted = Cancelled | NotAUrl | UrlWithSearch jsstring

definition not_a_share_link :: jsstring where
  "not_a_share_link =
     [50976, 54952, 54620, 32, 44277, 50976, 32, 47553, 53356, 44032, 32, 50500, 45768, 50640,
      50836, 46]"

definition wrong_data_format :: jsstring where
  "wrong_data_format =
     [45936, 51060, 53552, 32, 54805, 49885, 51060, 32, 50732, 48148, 47476, 51648, 32, 50506,
      50500, 50836, 46]"

definition link_read_error :: jsstring where
  "link_read_error =
     [47553, 53356, 47484, 32, 51069, 45716, 32, 51473, 32, 50724, 47448, 44032, 32, 45228,
      50612, 50836, 46]"

definition load_from_link :: "bool \<Rightarrow> pasted \<Rightarrow> app_state \<Rightarrow> app_state outcome" where
  "load_from_link confirmed raw st =
     (case raw of
        Cancelled \<Rightarrow> Done st
      | NotAUrl \<Rightarrow> Alert link_read_error
      | UrlWithSearch search \<Rightarrow>
          (let d = getQueryParam search (ascii ''data'') in
           if \<not> truthy d then Alert not_a_share_link
           else (case ebind (ToString d) decodeData of
                   Inl e \<Rightarrow> Alert link_read_error
                 | Inr incoming \<Rightarrow>
                     (case incoming of
                        JArr xs \<Rightarrow> if confirmed then Done (st\<lparr>items := xs\<rparr>) else Done st
                      | _ \<Rightarrow> Alert wrong_data_format))))"

text \<open>
  The button that makes the link: the token of the whole list, or the alert of the
  \<open>catch\<close>.
\<close>

definition link_failed :: jsstring where
  "link_failed =
     [47553, 53356, 32, 47564, 46308, 44592, 50640, 32, 49892, 54056, 54664, 50612, 50836, 46]"

definition make_share_link :: "app_state \<Rightarrow> jsstring outcome" where
  "make_share_link st =
     (case encodeData (JArr (items st)) of
        Inl e \<Rightarrow> Alert link_failed
      | Inr b64 \<Rightarrow> Done (share_search b64))"

section \<open>Items of the data model\<close>

text \<open>
  An item as the data model types it, and the value the program holds for it: the
  object with the eight properties in the order in which \<open>handleSave\<close> and
  \<open>importJSON\<close> write them.
\<close>

record item =
  item_id :: jsstring
  item_title :: jsstring
  item_content :: jsstring
  item_caution :: jsstring
  item_link :: jsstring
  item_tags :: "jsstring list"
  item_createdAt :: int
  item_updatedAt :: int

definition item_js :: "item \<Rightarrow> jsval" where
  "item_js it =
     JObj
       [(ascii ''id'', JStr (item_id it)),
        (ascii ''title'', JStr (item_title it)),
        (ascii ''content'', JStr (item_content it)),
        (ascii ''caution'', JStr (item_caution it)),
        (ascii ''link'', JStr (item_link it)),
        (ascii ''tags'', JArr (map JStr (item_tags it))),
        (ascii ''createdAt'', JNum (Integer (item_createdAt it))),
        (ascii ''updatedAt'', JNum (Integer (item_updatedAt it)))]"

section \<open>Vocabulary of the statements\<close>

text \<open>
  An item carries the id \<open>i\<close> when reading its property \<open>id\<close> gives a value that
  \<open>===\<close> equates with \<open>i\<close>.
\<close>

definition has_id :: "jsval \<Rightarrow> jsval \<Rightarrow> bool" where
  "has_id it i = (case get_prop it (ascii ''id'') of Inl e \<Rightarrow> False | Inr j \<Rightarrow> strict_eq j i)"

text \<open>The ids of a list, position by position.\<close>

definition ids :: "jsval list \<Rightarrow> (error + jsval) list" where
  "ids list = map (\<lambda>it. get_prop it (ascii ''id'')) list"

text \<open>
  The number the sort reads from an item for a key: the property when it is an integer,
  zero when the item has no such property. \<open>stamped\<close> says that an item is an object
  and that one of the two holds.
\<close>

definition stamp :: "jsstring \<Rightarrow> jsval \<Rightarrow> int" where
  "stamp key it = (case get_prop it key of Inr (JNum (Integer n)) \<Rightarrow> n | _ \<Rightarrow> 0)"

definition stamped :: "jsstring \<Rightarrow> jsval \<Rightarrow> bool" where
  "stamped key it =
     (case it of
        JObj kvs \<Rightarrow>
          (case map_of kvs key of
             None \<Rightarrow> True
           | Some v \<Rightarrow> (case v of JNum n \<Rightarrow> (case n of Integer k \<Rightarrow> True | _ \<Rightarrow> False) | _ \<Rightarrow> False))
      | _ \<Rightarrow> False)"

text \<open>
  The text in which the program searches an item of the data model: the four fields
  with a line feed between them. And the text claim C4 names: the four fields one
  after the other.
\<close>

definition searched_text :: "item \<Rightarrow> jsstring" where
  "searched_text it =
     item_title it @ [10] @ item_content it @ [10] @ item_caution it @ [10]
       @ join [32] (item_tags it)"

definition claimed_text :: "item \<Rightarrow> jsstring" where
  "claimed_text it = item_title it @ item_content it @ item_caution it @ join [32] (item_tags it)"

text \<open>
  Lower case for ASCII letters. The platform's \<open>toLowerCase\<close> agrees with it on ASCII
  text; it stands in for the platform's function in the examples.
\<close>

definition ascii_lower :: "jsstring \<Rightarrow> jsstring" where
  "ascii_lower s = map (\<lambda>c. if 65 \<le> c \<and> c \<le> 90 then c + 32 else c) s"

text \<open>
  The invariant of claim C9 on one item: both timestamps are integers and
  \<open>createdAt\<close> is not above \<open>updatedAt\<close>. \<open>dated t\<close> adds that \<open>createdAt\<close> is
  not above the clock reading \<open>t\<close>.
\<close>

definition ordered_stamps :: "jsval \<Rightarrow> bool" where
  "ordered_stamps it =
     (case get_prop it (ascii ''createdAt'') of
        Inr (JNum (Integer c)) \<Rightarrow>
          (case get_prop it (ascii ''updatedAt'') of
             Inr (JNum (Integer u)) \<Rightarrow> c \<le> u
           | _ \<Rightarrow> False)
      | _ \<Rightarrow> False)"

definition dated :: "nat \<Rightarrow> jsval \<Rightarrow> bool" where
  "dated t it = (ordered_stamps it \<and> stamp (ascii ''createdAt'') it \<le> int t)"

text \<open>
  The states that saving and deleting produce from an empty list, with a clock that
  does not go back; \<open>t\<close> is its last reading. Between two operations the user changes
  the form, the query and the selection, never the list.
\<close>

inductive reachable :: "nat \<Rightarrow> app_state \<Rightarrow> bool" where
  start: "items st = [] \<Longrightarrow> reachable t st"
| typing: "reachable t st \<Longrightarrow> items st' = items st \<Longrightarrow> reachable t st'"
| save: "reachable t st \<Longrightarrow> t \<le> now \<Longrightarrow> handleSave now uid_now rnd st = Done st' \<Longrightarrow> reachable now st'"
| delete: "reachable t st \<Longrightarrow> handleDelete confirmed item st = Done st' \<Longrightarrow> reachable t st'"

text \<open>
  What the import rebuilds a record to: an object with exactly the eight properties, in
  their order; an id that is not falsy; title, content, caution and link strings; tags
  an array of strings; both timestamps numbers other than \<open>NaN\<close>.
\<close>

definition field :: "jsval \<Rightarrow> jsstring \<Rightarrow> jsval" where
  "field v k = (case get_prop v k of Inl e \<Rightarrow> JUndefined | Inr x \<Rightarrow> x)"

definition is_string :: "jsval \<Rightarrow> bool" where
  "is_string v = (case v of JStr s \<Rightarrow> True | _ \<Rightarrow> False)"

definition is_number :: "jsval \<Rightarrow> bool" where
  "is_number v = (case v of JNum n \<Rightarrow> n \<noteq> NaN | _ \<Rightarrow> False)"

definition is_string_array :: "jsval \<Rightarrow> bool" where
  "is_string_array v = (case v of JArr xs \<Rightarrow> list_all is_string xs | _ \<Rightarrow> False)"

definition rebuilt :: "jsval \<Rightarrow> bool" where
  "rebuilt v =
     (map fst (own_props v) =
        [ascii ''id'', ascii ''title'', ascii ''content'', ascii ''caution'', ascii ''link'',
         ascii ''tags'', ascii ''createdAt'', ascii ''updatedAt'']
      \<and> (case v of JObj kvs \<Rightarrow> True | _ \<Rightarrow> False)
      \<and> truthy (field v (ascii ''id''))
      \<and> is_string (field v (ascii ''title''))
      \<and> is_string (field v (ascii ''content''))
      \<and> is_string (field v (ascii ''caution''))
      \<and> is_string (field v (ascii ''link''))
      \<and> is_string_array (field v (ascii ''tags''))
      \<and> is_number (field v (ascii ''createdAt''))
      \<and> is_number (field v (ascii ''updatedAt'')))"

text \<open>
  For the codec: a string of bytes; the base64 characters of a byte string without the
  padding, and the padding; a base64 character that is neither padding nor white space.
\<close>

definition b64_ok :: "nat \<Rightarrow> bool" where
  "b64_ok c = (b64_val c \<noteq> None \<and> c \<noteq> 61 \<and> \<not> is_ascii_ws c)"

fun b64_body :: "nat list \<Rightarrow> jsstring" where
  "b64_body [] = []"
| "b64_body [a] = [b64_char (a div 4), b64_char (a mod 4 * 16)]"
| "b64_body [a, b] =
     [b64_char (a div 4), b64_char (a mod 4 * 16 + b div 16), b64_char (b mod 16 * 4)]"
| "b64_body (a # b # c # r) =
     [b64_char (a div 4), b64_char (a mod 4 * 16 + b div 16),
      b64_char (b mod 16 * 4 + c div 64), b64_char (c mod 64)] @ b64_body r"

definition b64_pad :: "nat \<Rightarrow> jsstring" where
  "b64_pad n = (if n mod 3 = 1 then [61, 61] else if n mod 3 = 2 then [61] else [])"

definition bytes :: "nat list \<Rightarrow> bool" where
  "bytes bs = list_all (\<lambda>b. b < 256) bs"

text \<open>
  A string is well formed when every surrogate has its partner, which is what
  \<open>JSON.stringify\<close> writes; a scalar is a code point that is no surrogate.
\<close>

fun well_formed :: "jsstring \<Rightarrow> bool" where
  "well_formed [] = True"
| "well_formed (c # cs) =
     (if is_high_surrogate c then
        (case cs of [] \<Rightarrow> False | d # ds \<Rightarrow> is_low_surrogate d \<and> well_formed ds)
      else \<not> is_low_surrogate c \<and> c < 65536 \<and> well_formed cs)"

definition scalar :: "nat \<Rightarrow> bool" where
  "scalar cp = (cp \<le> 1114111 \<and> \<not> (55296 \<le> cp \<and> cp \<le> 57343))"

text \<open>
  The numbers that the model and the engine hold alike: no number at all, an infinity,
  and the integers that a double holds exactly. A value is exact when every number in
  it is, and a record is exact for the import when, besides, the numbers read from its
  two timestamps are.
\<close>

definition safe_int :: "int \<Rightarrow> bool" where
  "safe_int n = (\<bar>n\<bar> < 9007199254740992)"

definition exact_number :: "jsnum \<Rightarrow> bool" where
  "exact_number n = (case n of Integer i \<Rightarrow> safe_int i | Decimal m k \<Rightarrow> False | _ \<Rightarrow> True)"

fun exact :: "jsval \<Rightarrow> bool" where
  "exact (JNum n) = exact_number n"
| "exact (JArr xs) = list_all exact xs"
| "exact (JObj kvs) = list_all exact (map snd kvs)"
| "exact v = True"

definition exact_read :: "jsval \<Rightarrow> bool" where
  "exact_read x = (case ToNumber x of Inl e \<Rightarrow> True | Inr n \<Rightarrow> exact_number n)"

definition exact_record :: "jsval \<Rightarrow> bool" where
  "exact_record d =
     (exact d \<and> exact_read (field d (ascii ''createdAt''))
      \<and> exact_read (field d (ascii ''updatedAt'')))"

text \<open>
  What the import makes of a record \<open>d\<close> that it keeps, field by field. \<open>text_of v x\<close>:
  \<open>v\<close> is the string that \<open>String(x)\<close> gives. \<open>text_or_empty v x\<close>: the same, and the
  empty string when \<open>x\<close> is falsy. \<open>texts_of v x\<close>: \<open>v\<close> is the array of the strings of
  the elements of the array \<open>x\<close>, in their order, and the empty array when \<open>x\<close> is no
  array. \<open>number_or v x now\<close>: \<open>v\<close> is the number that \<open>Number(x)\<close> gives, and the
  clock reading \<open>now\<close> when that number is \<open>NaN\<close> or zero. \<open>coerced r d v\<close>: \<open>v\<close> is
  an object with exactly the eight properties, in their order, the id is the one of
  \<open>d\<close> as it came, and every other property is the coerced property of \<open>d\<close>.
\<close>

definition text_of :: "jsval \<Rightarrow> jsval \<Rightarrow> bool" where
  "text_of v x = (case ToString x of Inl e \<Rightarrow> False | Inr s \<Rightarrow> v = JStr s)"

definition text_or_empty :: "jsval \<Rightarrow> jsval \<Rightarrow> bool" where
  "text_or_empty v x = (if truthy x then text_of v x else v = JStr [])"

definition texts_of :: "jsval \<Rightarrow> jsval \<Rightarrow> bool" where
  "texts_of v x =
     (case x of
        JArr xs \<Rightarrow> (case v of JArr ys \<Rightarrow> list_all2 text_of ys xs | _ \<Rightarrow> False)
      | _ \<Rightarrow> v = JArr [])"

definition number_or :: "jsval \<Rightarrow> jsval \<Rightarrow> nat \<Rightarrow> bool" where
  "number_or v x now =
     (case ToNumber x of
        Inl e \<Rightarrow> False
      | Inr n \<Rightarrow> v = JNum (if n = NaN \<or> n = Integer 0 then Integer (int now) else n))"

definition coerced :: "reads \<Rightarrow> jsval \<Rightarrow> jsval \<Rightarrow> bool" where
  "coerced r d v =
     ((case v of
         JObj kvs \<Rightarrow>
           map fst kvs =
             [ascii ''id'', ascii ''title'', ascii ''content'', ascii ''caution'', ascii ''link'',
              ascii ''tags'', ascii ''createdAt'', ascii ''updatedAt'']
       | _ \<Rightarrow> False)
      \<and> field v (ascii ''id'') = field d (ascii ''id'')
      \<and> text_of (field v (ascii ''title'')) (field d (ascii ''title''))
      \<and> text_or_empty (field v (ascii ''content'')) (field d (ascii ''content''))
      \<and> text_or_empty (field v (ascii ''caution'')) (field d (ascii ''caution''))
      \<and> text_or_empty (field v (ascii ''link'')) (field d (ascii ''link''))
      \<and> texts_of (field v (ascii ''tags'')) (field d (ascii ''tags''))
      \<and> number_or (field v (ascii ''createdAt'')) (field d (ascii ''createdAt'')) (created_now r)
      \<and> number_or (field v (ascii ''updatedAt'')) (field d (ascii ''updatedAt'')) (updated_now r))"

text \<open>
  A coercion of the import throws on a record: \<open>String\<close> on its title, on a content,
  caution or link that is not falsy, or on an element of its tags, or \<open>Number\<close> on one
  of its timestamps.
\<close>

definition coercion_throws :: "jsval \<Rightarrow> bool" where
  "coercion_throws d =
     (isl (ToString (field d (ascii ''title'')))
      \<or> (truthy (field d (ascii ''content'')) \<and> isl (ToString (field d (ascii ''content''))))
      \<or> (truthy (field d (ascii ''caution'')) \<and> isl (ToString (field d (ascii ''caution''))))
      \<or> (truthy (field d (ascii ''link'')) \<and> isl (ToString (field d (ascii ''link''))))
      \<or> (case field d (ascii ''tags'') of
            JArr xs \<Rightarrow> list_ex (\<lambda>x. isl (ToString x)) xs
          | _ \<Rightarrow> False)
      \<or> isl (ToNumber (field d (ascii ''createdAt'')))
      \<or> isl (ToNumber (field d (ascii ''updatedAt''))))"

text \<open>
  For the round trip of the codec: an item of the data model whose strings are
  sequences of code units, any at all, and whose timestamps are integers that a number
  holds exactly; the JSON text of an item, followed by \<open>rest\<close>, and of a list; and what
  may follow the digits of a number in a JSON text.
\<close>

definition valid_item :: "item \<Rightarrow> bool" where
  "valid_item it =
     (is_jsstring (item_id it) \<and> is_jsstring (item_title it) \<and> is_jsstring (item_content it)
      \<and> is_jsstring (item_caution it) \<and> is_jsstring (item_link it)
      \<and> list_all is_jsstring (item_tags it)
      \<and> safe_int (item_createdAt it) \<and> safe_int (item_updatedAt it))"

definition item_text :: "item \<Rightarrow> jsstring \<Rightarrow> jsstring" where
  "item_text it rest =
     123 # quote (ascii ''id'') @ 58 # quote (item_id it) @ 44 #
     quote (ascii ''title'') @ 58 # quote (item_title it) @ 44 #
     quote (ascii ''content'') @ 58 # quote (item_content it) @ 44 #
     quote (ascii ''caution'') @ 58 # quote (item_caution it) @ 44 #
     quote (ascii ''link'') @ 58 # quote (item_link it) @ 44 #
     quote (ascii ''tags'') @ 58 # 91 # join [44] (map quote (item_tags it)) @ 93 # 44 #
     quote (ascii ''createdAt'') @ 58 # num_to_string (Integer (item_createdAt it)) @ 44 #
     quote (ascii ''updatedAt'') @ 58 # num_to_string (Integer (item_updatedAt it)) @ 125 # rest"

definition list_text :: "item list \<Rightarrow> jsstring" where
  "list_text L = 91 # join [44] (map (\<lambda>it. item_text it []) L) @ [93]"

definition ends_number :: "jsstring \<Rightarrow> bool" where
  "ends_number rest =
     (rest = [] \<or> \<not> (is_digit (hd rest) \<or> hd rest = 46 \<or> hd rest = 101 \<or> hd rest = 69))"

section \<open>Example inputs\<close>

text \<open>
  A state with one item, \<open>A\<close>, and a form that names the id \<open>B\<close>, which no item has.
\<close>

definition probe :: app_state where
  "probe =
     \<lparr>items = [item_js \<lparr>item_id = ascii ''A'', item_title = ascii ''Neck Tilt'',
                 item_content = [], item_caution = [], item_link = [], item_tags = [],
                 item_createdAt = 5, item_updatedAt = 5\<rparr>],
      query = [], sortKey = ascii ''updatedAt'', selectedId = JNull, modalOpen = True,
      editingId = JStr (ascii ''B''), title = ascii ''Knee Bend'', content = [], caution = [],
      link = [], tagsText = []\<rparr>"

text \<open>A state with the items \<open>A\<close> and \<open>B\<close>, and a form that edits \<open>A\<close>.\<close>

definition item_A :: item where
  "item_A = \<lparr>item_id = ascii ''A'', item_title = ascii ''Neck Tilt'', item_content = [],
     item_caution = [], item_link = [], item_tags = [], item_createdAt = 5, item_updatedAt = 5\<rparr>"

definition item_B :: item where
  "item_B = \<lparr>item_id = ascii ''B'', item_title = ascii ''Shoulder Stretch'', item_content = [],
     item_caution = [], item_link = [], item_tags = [ascii ''shoulder''], item_createdAt = 7,
     item_updatedAt = 8\<rparr>"

definition two_items :: app_state where
  "two_items =
     \<lparr>items = [item_js item_A, item_js item_B],
      query = [], sortKey = ascii ''updatedAt'', selectedId = JStr (ascii ''A''), modalOpen = True,
      editingId = JStr (ascii ''A''), title = ascii ''Knee Bend'', content = [], caution = [],
      link = [], tagsText = []\<rparr>"

text \<open>
  A state whose only item carries the id that \<open>uid\<close> makes of the clock reading
  \<open>1700000000001\<close> and the random digits \<open>k3f9zq\<close>.
\<close>

definition collide :: app_state where
  "collide =
     \<lparr>items = [item_js \<lparr>item_id = ascii ''LOYW3V29K3F9ZQ'', item_title = ascii ''Neck Tilt'',
                 item_content = [], item_caution = [], item_link = [], item_tags = [],
                 item_createdAt = 1600000000000, item_updatedAt = 1600000000000\<rparr>],
      query = [], sortKey = ascii ''updatedAt'', selectedId = JNull, modalOpen = True,
      editingId = JNull, title = ascii '' Knee Bend '', content = [], caution = [],
      link = [], tagsText = ascii ''knee, leg,, ''\<rparr>"

text \<open>An item with the title \<open>ab\<close> and the content \<open>cd\<close>.\<close>

definition item_ab_cd :: item where
  "item_ab_cd = \<lparr>item_id = ascii ''A'', item_title = ascii ''ab'', item_content = ascii ''cd'',
     item_caution = [], item_link = [], item_tags = [], item_createdAt = 5, item_updatedAt = 5\<rparr>"

text \<open>
  The text of a file to import, with an item updated before it was created; and
  readings of the clock that are never asked for.
\<close>

definition backdated_file :: jsstring where
  \<open>backdated_file = ascii ''[{"id":"a","title":"b","createdAt":5,"updatedAt":3}]''\<close>

definition no_reads :: "nat \<Rightarrow> reads" where
  "no_reads k = \<lparr>uid_value = [], created_now = 0, updated_now = 0\<rparr>"

text \<open>The form of \<open>probe\<close> on an empty list, with no item being edited.\<close>

definition blank :: app_state where
  "blank = probe\<lparr>items := [], editingId := JNull\<rparr>"

text \<open>
  The token of the list \<^verbatim>\<open>[{"id":"x"}]\<close>, whose only record has no title.
\<close>

definition untitled_token :: jsstring where
  "untitled_token = ascii ''W3siaWQiOiJ4In1d''"

text \<open>Readings for the import.\<close>

definition fixed_reads :: "nat \<Rightarrow> reads" where
  "fixed_reads k = \<lparr>uid_value = ascii ''U'', created_now = 100, updated_now = 200\<rparr>"

text \<open>
  An item titled with the Korean word for squat, the token of the list that holds it,
  and the token with its plus sign read as a space.
\<close>

definition squat :: item where
  "squat = \<lparr>item_id = ascii ''LOYW3V29K3F9ZQ'', item_title = [49828, 53244, 53944],
     item_content = [], item_caution = [], item_link = [], item_tags = [],
     item_createdAt = 1700000000000, item_updatedAt = 1700000000000\<rparr>"

definition squat_token :: jsstring where
  "squat_token = ascii ''W3siaWQiOiJMT1lXM1YyOUszRjlaUSIsInRpdGxlIjoi7Iqk7L+87Yq4IiwiY29udGVudCI6IiIsImNhdXRpb24iOiIiLCJsaW5rIjoiIiwidGFncyI6W10sImNyZWF0ZWRBdCI6MTcwMDAwMDAwMDAwMCwidXBkYXRlZEF0IjoxNzAwMDAwMDAwMDAwfV0=''"

definition squat_token_read :: jsstring where
  "squat_token_read = ascii ''W3siaWQiOiJMT1lXM1YyOUszRjlaUSIsInRpdGxlIjoi7Iqk7L 87Yq4IiwiY29udGVudCI6IiIsImNhdXRpb24iOiIiLCJsaW5rIjoiIiwidGFncyI6W10sImNyZWF0ZWRBdCI6MTcwMDAwMDAwMDAwMCwidXBkYXRlZEF0IjoxNzAwMDAwMDAwMDAwfV0=''"

text \<open>
  The text of a file to import whose first record has no title and whose second has
  a number as id and as title, no content, tags of a number and a string, the creation
  time as a string and no update time; and the text of a file whose second record has
  a title that no \<open>String\<close> converts.
\<close>

definition loose_file :: jsstring where
  \<open>loose_file = ascii ''[{"id":"x"},{"id":7,"title":12,"content":null,"tags":[1,"a"],"createdAt":"12"}]''\<close>

definition loose_records :: "jsval list" where
  "loose_records =
     [JObj [(ascii ''id'', JStr (ascii ''x''))],
      JObj [(ascii ''id'', JNum (Integer 7)), (ascii ''title'', JNum (Integer 12)),
            (ascii ''content'', JNull),
            (ascii ''tags'', JArr [JNum (Integer 1), JStr (ascii ''a'')]),
            (ascii ''createdAt'', JStr (ascii ''12''))]]"

definition loose_rebuilt :: jsval where
  "loose_rebuilt =
     JObj [(ascii ''id'', JNum (Integer 7)), (ascii ''title'', JStr (ascii ''12'')),
           (ascii ''content'', JStr []), (ascii ''caution'', JStr []), (ascii ''link'', JStr []),
           (ascii ''tags'', JArr [JStr (ascii ''1''), JStr (ascii ''a'')]),
           (ascii ''createdAt'', JNum (Integer 12)), (ascii ''updatedAt'', JNum (Integer 200))]"

definition throwing_file :: jsstring where
  \<open>throwing_file = ascii ''[{"id":"k","title":"t"},{"id":"m","title":{"toString":1}}]''\<close>

definition throwing_records :: "jsval list" where
  "throwing_records =
     [JObj [(ascii ''id'', JStr (ascii ''k'')), (ascii ''title'', JStr (ascii ''t''))],
      JObj [(ascii ''id'', JStr (ascii ''m'')),
            (ascii ''title'', JObj [(ascii ''toString'', JNum (Integer 1))])]]"

text \<open>
  An item with Korean text, a character outside the basic plane, a surrogate with no
  partner, a quotation mark, a line feed and a negative timestamp.
\<close>

definition mixed_item :: item where
  "mixed_item = \<lparr>item_id = ascii ''LOYW3V29K3F9ZQ'', item_title = [49828, 53244, 53944],
     item_content = [55357, 56842, 32, 55357], item_caution = [34, 10, 92],
     item_link = ascii ''https://example.org/?a=1&b=2'', item_tags = [[47785], ascii ''a b''],
     item_createdAt = - 1, item_updatedAt = 1700000000000\<rparr>"

section \<open>Objects and lists\<close>

lemma map_of_replace:
  "map_of (map (\<lambda>(k', v'). if k' = k then (k', v) else (k', v')) kvs) k' =
     (if k' = k then (if k \<in> fst ` set kvs then Some v else None) else map_of kvs k')"
  by (induction kvs) (auto simp: rev_image_eqI)

lemma map_of_insert_index:
  "k \<notin> fst ` set kvs \<Longrightarrow>
     map_of (insert_index i k v kvs) k' = (if k' = k then Some v else map_of kvs k')"
  by (induction kvs) (auto split: option.splits)

text \<open>A property written is the property read; the others are untouched.\<close>

lemma map_of_obj_put:
  "map_of (obj_put kvs k v) k' = (if k' = k then Some v else map_of kvs k')"
proof (cases "k \<in> fst ` set kvs")
  case True
  then show ?thesis by (simp add: obj_put_def map_of_replace)
next
  case False
  then have "map_of kvs k = None" by (simp add: map_of_eq_None_iff)
  with False show ?thesis
    by (auto simp: obj_put_def map_of_insert_index map_add_def split: option.splits)
qed

lemma map_e_Inr:
  "(\<And>x. x \<in> set xs \<Longrightarrow> f x = Inr (g x)) \<Longrightarrow> map_e f xs = Inr (map g xs)"
  by (induction xs) auto

lemma map_e_same:
  "\<forall>x \<in> set xs. f x = Inr x \<Longrightarrow> map_e f xs = Inr xs"
  by (induction xs) auto

lemma map_e_all2:
  "\<forall>x \<in> set xs. \<exists>y. f x = Inr y \<and> P x y \<Longrightarrow>
     \<exists>ys. map_e f xs = Inr ys \<and> list_all2 P xs ys"
  by (induction xs) auto

lemma filter_e_Inr:
  "(\<And>x. x \<in> set xs \<Longrightarrow> p x = Inr (q x)) \<Longrightarrow> filter_e p xs = Inr (filter q xs)"
  by (induction xs) auto

lemma filter_e_all:
  "\<forall>x \<in> set xs. p x = Inr True \<Longrightarrow> filter_e p xs = Inr xs"
  by (induction xs) auto

section \<open>Strings\<close>

lemma dropWhile_all: "(\<forall>x \<in> set (dropWhile P s). P x) \<longleftrightarrow> (\<forall>x \<in> set s. P x)"
proof
  assume a: "\<forall>x \<in> set (dropWhile P s). P x"
  have "dropWhile P s = []"
  proof (rule ccontr)
    assume n: "dropWhile P s \<noteq> []"
    then have "\<not> P (hd (dropWhile P s))" by (rule hd_dropWhile)
    moreover from n have "hd (dropWhile P s) \<in> set (dropWhile P s)" by simp
    ultimately show False using a by blast
  qed
  then show "\<forall>x \<in> set s. P x" by (simp add: dropWhile_eq_Nil_conv)
next
  assume "\<forall>x \<in> set s. P x"
  then show "\<forall>x \<in> set (dropWhile P s). P x" by (meson set_dropWhileD)
qed

text \<open>A string trims to nothing exactly when it is white space throughout.\<close>

lemma trim_empty_iff: "trim s = [] \<longleftrightarrow> list_all is_js_ws s"
  by (simp add: trim_def dropWhile_eq_Nil_conv dropWhile_all list_all_iff)

lemma split_on_nonempty: "split_on sep s \<noteq> []"
  by (induction s) (auto split: list.splits)

lemma join_Cons: "ws \<noteq> [] \<Longrightarrow> join sep (w # ws) = w @ sep @ join sep ws"
  by (cases ws) auto

text \<open>Splitting at a separator is undone by joining with it, and no piece holds it.\<close>

lemma join_split_on: "join [sep] (split_on sep s) = s"
proof (induction s)
  case Nil
  show ?case by simp
next
  case (Cons c s)
  show ?case
  proof (cases "c = sep")
    case True
    with Cons show ?thesis by (simp add: join_Cons split_on_nonempty)
  next
    case False
    obtain w ws where sp: "split_on sep s = w # ws"
      using split_on_nonempty [of sep s] by (cases "split_on sep s") auto
    with Cons False show ?thesis by (cases ws) auto
  qed
qed

lemma split_on_no_sep: "w \<in> set (split_on sep s) \<Longrightarrow> sep \<notin> set w"
  by (induction s arbitrary: w) (auto split: if_splits list.splits)

lemma map_e_set:
  "map_e f xs = Inr ys \<Longrightarrow> y \<in> set ys \<Longrightarrow> \<exists>x \<in> set xs. f x = Inr y"
  by (induction xs arbitrary: ys) (auto split: sum.splits)

lemma filter_e_set:
  "filter_e p xs = Inr ys \<Longrightarrow> set ys \<subseteq> set xs"
  by (induction xs arbitrary: ys) (auto split: sum.splits if_splits)

lemma map_e_length: "map_e f xs = Inr ys \<Longrightarrow> length ys = length xs"
  by (induction xs arbitrary: ys) (auto split: sum.splits)

lemma ebind_Inr: "ebind m f = Inr y \<longleftrightarrow> (\<exists>x. m = Inr x \<and> f x = Inr y)"
  by (cases m) (simp_all add: ebind_def)

section \<open>Items\<close>

text \<open>The item of a new entry is the object of the data model.\<close>

lemma new_item_js:
  "new_item i t st now =
     item_js \<lparr>item_id = i, item_title = t, item_content = content st,
       item_caution = caution st, item_link = link st, item_tags = form_tags (tagsText st),
       item_createdAt = int now, item_updatedAt = int now\<rparr>"
  by (simp add: new_item_def item_js_def obj_literal_def obj_put_def array_index_def is_digit_def)

text \<open>
  Editing keeps the id of every item, and rewrites only items whose id is the one
  edited.
\<close>

lemma edit_item_id:
  assumes "get_prop it (ascii ''id'') = Inr j" "truthy (editingId st)"
  shows "\<exists>v. edit_item st t now it = Inr v \<and> get_prop v (ascii ''id'') = Inr j
           \<and> (\<not> strict_eq j (editingId st) \<longrightarrow> v = it)"
proof (cases "strict_eq j (editingId st)")
  case False
  with assms show ?thesis by (simp add: edit_item_def ebind_def)
next
  case True
  with assms(2) have "truthy j" by (cases j; cases "editingId st") auto
  with assms(1) obtain kvs where it: "it = JObj kvs"
    by (cases it) (auto split: option.splits)
  with assms(1) True show ?thesis
    by (simp add: edit_item_def ebind_def obj_literal_def map_of_obj_put)
qed

lemma element_strings_strs: "element_strings (map JStr ss) = Inr ss"
  by (induction ss) auto

text \<open>The text searched, for an item of the data model.\<close>

lemma haystack_item:
  "haystack toLowerCase (item_js it) = Inr (toLowerCase (searched_text it))"
  by (simp add: haystack_def item_js_def ebind_def js_or_def js_join_def element_strings_strs
      searched_text_def)

lemma filter_e_map:
  "(\<And>x. p (f x) = Inr (q x)) \<Longrightarrow> filter_e p (map f xs) = Inr (map f (filter q xs))"
  by (induction xs) auto

lemma uid_example: "uid 1700000000001 (ascii ''k3f9zq'') = ascii ''LOYW3V29K3F9ZQ''"
  by (simp add: uid_def to_base.simps digit_char_def upper_unit_def)

section \<open>Parsing small texts\<close>

lemma JSON_parse_empty: "JSON_parse [] = Inl SyntaxError"
  by (simp add: JSON_parse_def skip_ws_def)

text \<open>For evaluation: fuel written as a numeral is a successor.\<close>

lemma parse_value_numeral [simp]:
  "parse_value (numeral k) s = parse_value (Suc (pred_numeral k)) s"
  "parse_elements (numeral k) s = parse_elements (Suc (pred_numeral k)) s"
  "parse_members (numeral k) acc s = parse_members (Suc (pred_numeral k)) acc s"
  by (simp_all only: numeral_eq_Suc)

lemmas parse_eval = JSON_parse_def skip_ws_def is_json_ws_def starts_def parse_number_def parse_unsigned_number_def
  is_digit_def exponent_part_def decimal_value_def digits_value_def from_digits_def Let_def
  cons_unit_def obj_put_def array_index_def escape_char_def hex4_value_def hex_val_def

section \<open>Evaluating the codec\<close>

lemmas codec_eval = encodeData_def decodeData_def ebind_def prepend_def quote_def
  uri_unreserved_def is_alnum_def is_low_surrogate_def is_high_surrogate_def surrogate_pair_def
  utf8_encode_def utf16_encode_def pct_def pct_byte_def upper_digit_char_def hex_run_def
  radix_value_def hex_val_def starts_def btoa_def b64_char_def atob_def strip_padding_def
  is_ascii_ws_def b64_val_def escape_def escape_unit_def escape_unreserved_def leading_ones_def
  utf8_decode_def is_cont_def unicode_escape_def hex4_def digit_char_def

lemmas query_eval = getQueryParam_def URLSearchParams_def share_search_def utf8_bytes_def
  form_decode_def utf8_encode_def utf16_encode_def is_low_surrogate_def is_high_surrogate_def
  surrogate_pair_def hex_run_def radix_value_def hex_val_def starts_def

lemma decode_untitled:
  "decodeData untitled_token = Inr (JArr [JObj [(ascii ''id'', JStr (ascii ''x''))]])"
  by (simp add: untitled_token_def codec_eval parse_eval)

lemma query_untitled:
  "getQueryParam (share_search untitled_token) (ascii ''data'') = JStr untitled_token"
  by (simp add: untitled_token_def query_eval)

section \<open>Imported records\<close>

text \<open>A record is kept when it is an object whose id and title are not falsy.\<close>

lemma keep_record_iff:
  "keep_record d \<longleftrightarrow>
     (\<exists>kvs i t. d = JObj kvs \<and> map_of kvs (ascii ''id'') = Some i \<and> truthy i
        \<and> map_of kvs (ascii ''title'') = Some t \<and> truthy t)"
  by (cases d) (auto simp: keep_record_def split: option.splits)

lemma is_number_or: "is_number (js_or (JNum n) (JNum (Integer k)))"
  by (simp add: js_or_def is_number_def)

section \<open>Base64\<close>

lemma b64_val_char: "i < 64 \<Longrightarrow> b64_val (b64_char i) = Some i"
  by (auto simp: b64_val_def b64_char_def)

lemma b64_ok_char: "i < 64 \<Longrightarrow> b64_ok (b64_char i)"
  using b64_val_char [of i] by (auto simp: b64_ok_def b64_char_def is_ascii_ws_def)

lemma sextet1: "(b::nat) < 256 \<Longrightarrow> (a div 4) * 4 + (a mod 4 * 16 + b div 16) div 16 = a"
proof -
  assume "b < 256"
  then have "b div 16 < 16" by simp
  then have "(a mod 4 * 16 + b div 16) div 16 = a mod 4" by simp
  then show ?thesis by simp
qed

lemma sextet1': "(a div 4) * 4 + (a mod 4 * 16) div 16 = (a::nat)"
  by simp

lemma sextet2: "(b::nat) < 256 \<Longrightarrow> (c::nat) < 256 \<Longrightarrow>
   (a mod 4 * 16 + b div 16) mod 16 * 16 + (b mod 16 * 4 + c div 64) div 4 = b"
proof -
  assume "b < 256" "c < 256"
  then have "b div 16 < 16" "c div 64 < 4" by simp_all
  then have "(a mod 4 * 16 + b div 16) mod 16 = b div 16"
    "(b mod 16 * 4 + c div 64) div 4 = b mod 16" by simp_all
  then show ?thesis by simp
qed

lemma sextet2': "(b::nat) < 256 \<Longrightarrow>
   (a mod 4 * 16 + b div 16) mod 16 * 16 + (b mod 16 * 4) div 4 = b"
  using sextet2 [of b 0 a] by simp

lemma sextet3: "(c::nat) < 256 \<Longrightarrow> (b mod 16 * 4 + c div 64) mod 4 * 64 + c mod 64 = c"
proof -
  assume "c < 256"
  then have "c div 64 < 4" by simp
  then have "(b mod 16 * 4 + c div 64) mod 4 = c div 64" by simp
  then show ?thesis by simp
qed

lemma sextets:
  assumes "(a::nat) < 256" "(b::nat) < 256" "(c::nat) < 256"
  shows "a div 4 < 64" "a mod 4 * 16 < 64" "a mod 4 * 16 + b div 16 < 64" "b mod 16 * 4 < 64"
    "b mod 16 * 4 + c div 64 < 64" "c mod 64 < 64"
proof -
  from assms have "a div 4 < 64" "b div 16 < 16" "c div 64 < 4" by simp_all
  moreover have "a mod 4 < 4" "b mod 16 < 16" by simp_all
  ultimately show "a div 4 < 64" "a mod 4 * 16 < 64" "a mod 4 * 16 + b div 16 < 64" "b mod 16 * 4 < 64"
    "b mod 16 * 4 + c div 64 < 64" "c mod 64 < 64" by simp_all
qed


lemma b64_encode_split: "b64_encode bs = b64_body bs @ b64_pad (length bs)"
  by (induction bs rule: b64_encode.induct) (simp_all add: b64_pad_def)

lemma length_b64_encode: "length (b64_encode bs) mod 4 = 0"
  by (induction bs rule: b64_encode.induct) simp_all

lemma length_b64_body: "length (b64_body bs) mod 4 \<noteq> 1"
  by (induction bs rule: b64_body.induct) simp_all

lemma b64_body_ok: "bytes bs \<Longrightarrow> list_all b64_ok (b64_body bs)"
proof (induction bs rule: b64_body.induct)
  case 1
  then show ?case by simp
next
  case (2 a)
  then have "a < 256" by (simp add: bytes_def)
  from sextets(1,2) [OF this this this] show ?case by (simp add: b64_ok_char)
next
  case (3 a b)
  then have "a < 256" "b < 256" by (simp_all add: bytes_def)
  from sextets(1,3,4) [OF this this(2)] show ?case by (simp add: b64_ok_char)
next
  case (4 a b c r)
  then have ab: "a < 256" "b < 256" "c < 256" and r: "bytes r" by (simp_all add: bytes_def)
  from sextets(1,3,5,6) [OF ab] 4 r show ?case by (simp add: b64_ok_char)
qed

lemma b64_decode_body:
  "bytes bs \<Longrightarrow> b64_decode (map (\<lambda>c. the (b64_val c)) (b64_body bs)) = bs"
proof (induction bs rule: b64_body.induct)
  case 1
  then show ?case by simp
next
  case (2 a)
  then have a: "a < 256" by (simp add: bytes_def)
  with sextets(1,2) [OF a a a] sextet1' [of a] show ?case by (simp add: b64_val_char)
next
  case (3 a b)
  then have ab: "a < 256" "b < 256" by (simp_all add: bytes_def)
  with sextets(1,3,4) [OF ab ab(2)] sextet1 [of b a] sextet2' [of b a]
  show ?case by (simp add: b64_val_char)
next
  case (4 a b c r)
  then have ab: "a < 256" "b < 256" "c < 256" and r: "bytes r" by (simp_all add: bytes_def)
  with sextets(1,3,5,6) [OF ab] sextet1 [of b a] sextet2 [of b c a] sextet3 [of c b] r 4
  show ?case by (simp add: b64_val_char)
qed

lemma filter_all: "list_all P xs \<Longrightarrow> filter P xs = xs"
  by (induction xs) auto

lemma strip_padding_encode:
  assumes "bytes bs"
  shows "strip_padding (b64_encode bs) = b64_body bs"
proof -
  have ok: "list_all b64_ok (b64_body bs)" using assms by (rule b64_body_ok)
  have last_ok: "b64_body bs \<noteq> [] \<Longrightarrow> last (b64_body bs) \<noteq> 61"
  proof -
    assume "b64_body bs \<noteq> []"
    then have "last (b64_body bs) \<in> set (b64_body bs)" by (rule last_in_set)
    with ok have "b64_ok (last (b64_body bs))" by (simp add: list_all_iff)
    then show ?thesis by (simp add: b64_ok_def)
  qed
  consider "length bs mod 3 = 0" | "length bs mod 3 = 1" | "length bs mod 3 = 2" by arith
  then show ?thesis
  proof cases
    case 1
    then have e: "b64_encode bs = b64_body bs" by (simp add: b64_encode_split b64_pad_def)
    show ?thesis
      using last_ok unfolding e strip_padding_def by auto
  next
    case 2
    then have e: "b64_encode bs = b64_body bs @ [61, 61]" by (simp add: b64_encode_split b64_pad_def)
    from length_b64_encode [of bs] show ?thesis
      unfolding e strip_padding_def by (simp add: butlast_append)
  next
    case 3
    then have e: "b64_encode bs = b64_body bs @ [61]" by (simp add: b64_encode_split b64_pad_def)
    from 3 have "bs \<noteq> []" by auto
    then have "b64_body bs \<noteq> []" by (cases bs rule: b64_body.cases) auto
    with last_ok length_b64_encode [of bs] show ?thesis
      unfolding e strip_padding_def by (simp add: butlast_append)
  qed
qed

lemma encode_no_ws: "bytes bs \<Longrightarrow> filter (\<lambda>c. \<not> is_ascii_ws c) (b64_encode bs) = b64_encode bs"
proof (rule filter_all)
  assume "bytes bs"
  then have "list_all b64_ok (b64_body bs)" by (rule b64_body_ok)
  then have "list_all (\<lambda>c. \<not> is_ascii_ws c) (b64_body bs)"
    by (simp add: list_all_iff b64_ok_def)
  then show "list_all (\<lambda>c. \<not> is_ascii_ws c) (b64_encode bs)"
    by (simp add: b64_encode_split b64_pad_def is_ascii_ws_def)
qed

lemma atob_btoa: "bytes bs \<Longrightarrow> btoa bs = Inr (b64_encode bs) \<and> atob (b64_encode bs) = Inr bs"
proof -
  assume b: "bytes bs"
  from b64_body_ok [OF b] have "list_all (\<lambda>c. b64_val c \<noteq> None) (b64_body bs)"
    by (simp add: list_all_iff b64_ok_def)
  with b length_b64_body [of bs] show ?thesis
    by (simp add: btoa_def atob_def encode_no_ws strip_padding_encode b64_decode_body bytes_def)
qed

section \<open>UTF-8 and percent escapes\<close>

lemma hex_upper: "d < 16 \<Longrightarrow> hex_val (upper_digit_char d) = Some d"
  by (auto simp: hex_val_def upper_digit_char_def)

lemma upper_not_u: "d < 16 \<Longrightarrow> upper_digit_char d \<noteq> 117"
  by (auto simp: upper_digit_char_def)

lemma hex_run_pct:
  assumes "b < 256"
  shows "hex_run 2 (upper_digit_char (b div 16) # upper_digit_char (b mod 16) # rest) = Some b"
proof -
  from assms have d: "b div 16 < 16" "b mod 16 < 16" by simp_all
  have "b div 16 * 16 + b mod 16 = b" by simp
  with d show ?thesis by (simp add: hex_run_def radix_value_def hex_upper)
qed

lemma unescape_pct_byte:
  assumes "b < 256"
  shows "unescape (pct_byte b @ rest) = b # unescape rest"
proof -
  from assms have "b div 16 < 16" by simp
  then have "\<not> starts 117 (upper_digit_char (b div 16) # upper_digit_char (b mod 16) # rest)"
    by (simp add: starts_def upper_not_u)
  with hex_run_pct [OF assms, of rest] show ?thesis by (simp add: pct_byte_def)
qed

lemma unescape_pct: "bytes bs \<Longrightarrow> unescape (pct bs @ rest) = bs @ unescape rest"
  by (induction bs) (simp_all add: pct_def bytes_def unescape_pct_byte)

lemma unescape_plain: "c \<noteq> 37 \<Longrightarrow> unescape (c # rest) = c # unescape rest"
  by simp

lemma bytes_utf8: "cp < 2097152 \<Longrightarrow> bytes (utf8_encode cp)"
proof -
  assume a: "cp < 2097152"
  then have "cp div 262144 < 8" by simp
  moreover have "cp < 65536 \<Longrightarrow> cp div 4096 < 16" by simp
  moreover have "cp < 2048 \<Longrightarrow> cp div 64 < 32" by simp
  moreover have "cp mod 64 < 64" "cp div 64 mod 64 < 64" "cp div 4096 mod 64 < 64" by simp_all
  ultimately show ?thesis by (auto simp: bytes_def utf8_encode_def)
qed

lemma bytes_append: "bytes (xs @ ys) = (bytes xs \<and> bytes ys)"
  by (simp add: bytes_def)

lemma bytes_Cons: "bytes (x # xs) = (x < 256 \<and> bytes xs)"
  by (simp add: bytes_def)

lemma pair_bound:
  "is_high_surrogate hi \<Longrightarrow> is_low_surrogate lo \<Longrightarrow>
     65536 \<le> surrogate_pair hi lo \<and> surrogate_pair hi lo \<le> 1114111"
proof -
  assume h: "is_high_surrogate hi" and l: "is_low_surrogate lo"
  from h have "hi - 55296 \<le> 1023" unfolding is_high_surrogate_def by arith
  then have "(hi - 55296) * 1024 \<le> 1023 * 1024" by (rule mult_le_mono1)
  with l show ?thesis unfolding is_low_surrogate_def surrogate_pair_def by arith
qed

lemma unreserved_ascii: "uri_unreserved c \<Longrightarrow> c < 128 \<and> c \<noteq> 37"
  by (auto simp: uri_unreserved_def is_alnum_def)

lemma encode_unescape:
  "well_formed t \<Longrightarrow>
     \<exists>e. encodeURIComponent t = Inr e \<and> unescape e = utf8_bytes t \<and> bytes (utf8_bytes t)"
proof (induction t rule: well_formed.induct)
  case 1
  then show ?case by (simp add: utf8_bytes_def bytes_def)
next
  case (2 c cs)
  show ?case
  proof (cases "is_high_surrogate c")
    case True
    with "2.prems" obtain d ds where cs: "cs = d # ds" and d: "is_low_surrogate d" and w: "well_formed ds"
      by (cases cs) auto
    from "2.IH"(1) [OF True cs] d w obtain e where e: "encodeURIComponent ds = Inr e"
      "unescape e = utf8_bytes ds" "bytes (utf8_bytes ds)" by auto
    from True have nu: "\<not> uri_unreserved c" "\<not> is_low_surrogate c"
      using unreserved_ascii [of c] by (auto simp: is_high_surrogate_def is_low_surrogate_def)
    from pair_bound [OF True d] have b: "bytes (utf8_encode (surrogate_pair c d))"
      by (intro bytes_utf8) simp
    from True d cs nu e b show ?thesis
      by (simp add: prepend_def unescape_pct utf8_bytes_def bytes_append)
  next
    case False
    with "2.prems" have c: "\<not> is_low_surrogate c" "c < 65536" and w: "well_formed cs" by auto
    from "2.IH"(2) [OF False] w c obtain e where e: "encodeURIComponent cs = Inr e"
      "unescape e = utf8_bytes cs" "bytes (utf8_bytes cs)" by auto
    from c have b: "bytes (utf8_encode c)" by (intro bytes_utf8) simp
    show ?thesis
    proof (cases "uri_unreserved c")
      case True
      from unreserved_ascii [OF True] have "utf8_encode c = [c]" "c \<noteq> 37"
        by (simp_all add: utf8_encode_def)
      with True False c e b show ?thesis
        by (simp add: prepend_def utf8_bytes_def bytes_Cons)
    next
      case nr: False
      with False c e b show ?thesis
        by (simp add: prepend_def unescape_pct utf8_bytes_def bytes_append)
    qed
  qed
qed

lemma escape_append: "escape (xs @ ys) = escape xs @ escape ys"
  by (simp add: escape_def)

lemma escape_unit_high: "128 \<le> b \<Longrightarrow> b < 256 \<Longrightarrow> escape_unit b = pct_byte b"
  by (auto simp: escape_unit_def escape_unreserved_def is_alnum_def)

lemma escape_high: "list_all (\<lambda>b. 128 \<le> b \<and> b < 256) bs \<Longrightarrow> escape bs = pct bs"
  by (induction bs) (simp_all add: escape_def pct_def escape_unit_high)

lemma decode_ascii:
  assumes "c < 128"
  shows "decodeURIComponent (escape_unit c @ rest) = prepend [c] (decodeURIComponent rest)"
proof (cases "escape_unreserved c")
  case True
  then have "c \<noteq> 37" by (auto simp: escape_unreserved_def is_alnum_def)
  with True show ?thesis by (simp add: escape_unit_def)
next
  case False
  from assms have b: "c < 256" by simp
  from assms have l: "leading_ones c = 0" by (simp add: leading_ones_def)
  from False assms have "escape_unit c = pct_byte c" by (simp add: escape_unit_def)
  with hex_run_pct [OF b, of rest] l show ?thesis by (simp add: pct_byte_def)
qed

lemma pct_octets_pct: "bytes bs \<Longrightarrow> pct_octets (length bs) (pct bs @ rest) = Some bs"
proof (induction bs)
  case Nil
  then show ?case by (simp add: pct_def)
next
  case (Cons b bs)
  then have b: "b < 256" and bs: "bytes bs" by (simp_all add: bytes_Cons)
  from hex_run_pct [OF b, of "pct bs @ rest"] Cons.IH [OF bs] show ?case
    by (simp add: pct_def pct_byte_def starts_def)
qed

lemma length_pct: "length (pct bs) = 3 * length bs"
  by (induction bs) (simp_all add: pct_def pct_byte_def)

text \<open>Decoding the escapes of a sequence with two to four bytes.\<close>

lemma decode_sequence:
  assumes "bytes (b # bs)" "leading_ones b = Suc (length bs)" "1 \<le> length bs" "length bs \<le> 3"
    "utf8_decode (b # bs) = Some v"
  shows "decodeURIComponent (pct (b # bs) @ rest) = prepend (utf16_encode v) (decodeURIComponent rest)"
proof -
  from assms(1) have b: "b < 256" and bs: "bytes bs" by (simp_all add: bytes_Cons)
  let ?cs = "upper_digit_char (b div 16) # upper_digit_char (b mod 16) # pct bs @ rest"
  have p: "pct (b # bs) @ rest = 37 # ?cs" by (simp add: pct_def pct_byte_def)
  have h: "hex_run 2 ?cs = Some b" using b by (rule hex_run_pct)
  have d2: "drop 2 ?cs = pct bs @ rest" by simp
  have o: "pct_octets (leading_ones b - 1) (drop 2 ?cs) = Some bs"
    unfolding d2 using assms(2) pct_octets_pct [OF bs] by simp
  have dr: "drop (2 + 3 * (leading_ones b - 1)) ?cs = rest"
    using assms(2) by (simp add: length_pct)
  from assms(2,3,4) have l: "leading_ones b \<noteq> 0" "\<not> (leading_ones b = 1 \<or> 4 < leading_ones b)"
    by auto
  show ?thesis
    unfolding p using h o dr l assms(5) by (simp del: drop_Suc_Cons)
qed

lemma utf8_two:
  assumes "128 \<le> cp" "cp < 2048"
  shows "utf8_decode [192 + cp div 64, 128 + cp mod 64] = Some cp"
    "leading_ones (192 + cp div 64) = 2"
proof -
  from assms have d: "cp div 64 < 32" by simp
  have "cp div 64 * 64 + cp mod 64 = cp" by simp
  with d assms show "utf8_decode [192 + cp div 64, 128 + cp mod 64] = Some cp"
    by (simp add: utf8_decode_def is_cont_def)
  from d show "leading_ones (192 + cp div 64) = 2" by (simp add: leading_ones_def)
qed

lemma utf8_three:
  assumes "2048 \<le> cp" "cp < 65536" "\<not> (55296 \<le> cp \<and> cp \<le> 57343)"
  shows "utf8_decode [224 + cp div 4096, 128 + cp div 64 mod 64, 128 + cp mod 64] = Some cp"
    "leading_ones (224 + cp div 4096) = 3"
proof -
  from assms have d: "cp div 4096 < 16" by simp
  have "cp div 4096 = cp div 64 div 64" by (simp add: div_mult2_eq [symmetric])
  then have "(cp div 4096 * 64 + cp div 64 mod 64) * 64 + cp mod 64 = cp" by simp
  with d assms show "utf8_decode [224 + cp div 4096, 128 + cp div 64 mod 64, 128 + cp mod 64] = Some cp"
    by (simp add: utf8_decode_def is_cont_def)
  from d show "leading_ones (224 + cp div 4096) = 3" by (simp add: leading_ones_def)
qed

lemma utf8_four:
  assumes "65536 \<le> cp" "cp \<le> 1114111"
  shows "utf8_decode [240 + cp div 262144, 128 + cp div 4096 mod 64, 128 + cp div 64 mod 64,
            128 + cp mod 64] = Some cp"
    "leading_ones (240 + cp div 262144) = 4"
proof -
  from assms have d: "cp div 262144 < 8" by simp
  have e: "cp div 4096 = cp div 64 div 64" "cp div 262144 = cp div 64 div 64 div 64"
    by (simp_all add: div_mult2_eq [symmetric])
  have "((cp div 64 div 64 div 64 * 64 + cp div 64 div 64 mod 64) * 64 + cp div 64 mod 64) * 64
          + cp mod 64 = cp" by simp
  then have "((cp div 262144 * 64 + cp div 4096 mod 64) * 64 + cp div 64 mod 64) * 64
          + cp mod 64 = cp" by (simp only: e)
  with d assms show "utf8_decode [240 + cp div 262144, 128 + cp div 4096 mod 64,
            128 + cp div 64 mod 64, 128 + cp mod 64] = Some cp"
    by (simp add: utf8_decode_def is_cont_def)
  from d show "leading_ones (240 + cp div 262144) = 4" by (simp add: leading_ones_def)
qed

lemma low6: "x mod 64 < (128::nat)"
proof -
  have "x mod 64 < 64" by simp
  then show ?thesis by arith
qed

lemma decode_scalar:
  assumes "scalar cp"
  shows "decodeURIComponent (escape (utf8_encode cp) @ rest)
           = prepend (utf16_encode cp) (decodeURIComponent rest)"
proof -
  consider "cp < 128" | "128 \<le> cp" "cp < 2048" | "2048 \<le> cp" "cp < 65536" | "65536 \<le> cp"
    by arith
  then show ?thesis
  proof cases
    case 1
    with decode_ascii [OF 1, of rest] show ?thesis
      by (simp add: utf8_encode_def utf16_encode_def escape_def)
  next
    case 2
    then have u: "utf8_encode cp = [192 + cp div 64, 128 + cp mod 64]"
      by (simp add: utf8_encode_def)
    from 2 have b: "bytes (utf8_encode cp)" by (intro bytes_utf8) simp
    from 2 have "cp div 64 < 32" by simp
    then have hi: "list_all (\<lambda>b. 128 \<le> b \<and> b < 256) (utf8_encode cp)"
      unfolding u by (simp add: low6)
    from decode_sequence [OF b [unfolded u], of cp rest] utf8_two [OF 2]
    show ?thesis using escape_high [OF hi] by (simp add: u)
  next
    case 3
    from assms have ns: "\<not> (55296 \<le> cp \<and> cp \<le> 57343)" by (simp add: scalar_def)
    from 3 have u: "utf8_encode cp = [224 + cp div 4096, 128 + cp div 64 mod 64, 128 + cp mod 64]"
      by (simp add: utf8_encode_def)
    from 3 have b: "bytes (utf8_encode cp)" by (intro bytes_utf8) simp
    from 3 have "cp div 4096 < 16" by simp
    then have hi: "list_all (\<lambda>b. 128 \<le> b \<and> b < 256) (utf8_encode cp)"
      unfolding u by (simp add: low6)
    from decode_sequence [OF b [unfolded u], of cp rest] utf8_three [OF 3 ns]
    show ?thesis using escape_high [OF hi] by (simp add: u)
  next
    case 4
    from assms have le: "cp \<le> 1114111" by (simp add: scalar_def)
    from 4 have u: "utf8_encode cp = [240 + cp div 262144, 128 + cp div 4096 mod 64,
        128 + cp div 64 mod 64, 128 + cp mod 64]"
      by (simp add: utf8_encode_def)
    from le have b: "bytes (utf8_encode cp)" by (intro bytes_utf8) simp
    from le have "cp div 262144 < 8" by simp
    then have hi: "list_all (\<lambda>b. 128 \<le> b \<and> b < 256) (utf8_encode cp)"
      unfolding u by (simp add: low6)
    from decode_sequence [OF b [unfolded u], of cp rest] utf8_four [OF 4 le]
    show ?thesis using escape_high [OF hi] by (simp add: u)
  qed
qed

lemma utf16_unit: "c < 65536 \<Longrightarrow> utf16_encode c = [c]"
  by (simp add: utf16_encode_def)

lemma utf16_pair:
  assumes "is_high_surrogate hi" "is_low_surrogate lo"
  shows "utf16_encode (surrogate_pair hi lo) = [hi, lo]"
proof -
  from assms(2) have l: "lo - 56320 < 1024" "56320 \<le> lo" unfolding is_low_surrogate_def by arith+
  from assms(1) have h: "55296 \<le> hi" by (simp add: is_high_surrogate_def)
  have s: "surrogate_pair hi lo - 65536 = (hi - 55296) * 1024 + (lo - 56320)"
    by (simp add: surrogate_pair_def)
  from l(1) have "((hi - 55296) * 1024 + (lo - 56320)) div 1024 = hi - 55296"
    "((hi - 55296) * 1024 + (lo - 56320)) mod 1024 = lo - 56320" by simp_all
  with s h l(2) pair_bound [OF assms] show ?thesis by (simp add: utf16_encode_def)
qed

lemma scalar_unit: "\<not> is_high_surrogate c \<Longrightarrow> \<not> is_low_surrogate c \<Longrightarrow> c < 65536 \<Longrightarrow> scalar c"
  unfolding scalar_def is_high_surrogate_def is_low_surrogate_def by arith

lemma scalar_pair: "is_high_surrogate hi \<Longrightarrow> is_low_surrogate lo \<Longrightarrow> scalar (surrogate_pair hi lo)"
  using pair_bound [of hi lo] unfolding scalar_def by arith

lemma decode_escape: "well_formed t \<Longrightarrow> decodeURIComponent (escape (utf8_bytes t)) = Inr t"
proof (induction t rule: well_formed.induct)
  case 1
  then show ?case by (simp add: utf8_bytes_def escape_def)
next
  case (2 c cs)
  show ?case
  proof (cases "is_high_surrogate c")
    case True
    with "2.prems" obtain d ds where cs: "cs = d # ds" and d: "is_low_surrogate d" and w: "well_formed ds"
      by (cases cs) auto
    from "2.IH"(1) [OF True cs] d w have ih: "decodeURIComponent (escape (utf8_bytes ds)) = Inr ds"
      by simp
    from True d have u: "utf8_bytes (c # d # ds) = utf8_encode (surrogate_pair c d) @ utf8_bytes ds"
      by (simp add: utf8_bytes_def)
    from decode_scalar [OF scalar_pair [OF True d], of "escape (utf8_bytes ds)"] ih
      utf16_pair [OF True d]
    show ?thesis unfolding cs by (simp add: u escape_append prepend_def)
  next
    case False
    with "2.prems" have c: "\<not> is_low_surrogate c" "c < 65536" and w: "well_formed cs" by auto
    from "2.IH"(2) [OF False] w c have ih: "decodeURIComponent (escape (utf8_bytes cs)) = Inr cs"
      by simp
    from False c have u: "utf8_bytes (c # cs) = utf8_encode c @ utf8_bytes cs"
      by (simp add: utf8_bytes_def)
    from decode_scalar [OF scalar_unit [OF False c], of "escape (utf8_bytes cs)"] ih
      utf16_unit [OF c(2)]
    show ?thesis by (simp add: u escape_append prepend_def)
  qed
qed

text \<open>What the codec does to a text between the two JSON steps.\<close>

lemma transport:
  assumes "well_formed t"
  shows "\<exists>tok. ebind (encodeURIComponent t) (\<lambda>e. btoa (unescape e)) = Inr tok
           \<and> ebind (atob tok) (\<lambda>bin. decodeURIComponent (escape bin)) = Inr t"
proof -
  from encode_unescape [OF assms] obtain e where e: "encodeURIComponent t = Inr e"
    "unescape e = utf8_bytes t" "bytes (utf8_bytes t)" by blast
  from atob_btoa [OF e(3)] e decode_escape [OF assms] show ?thesis
    by (simp add: ebind_def)
qed

section \<open>JSON texts read back\<close>

text \<open>
  Numbers. The digits that \<open>toString\<close> writes for an integer below \<open>10 ^ 21\<close> are
  read back as that integer.
\<close>

lemma to_base_digits: "2 \<le> b \<Longrightarrow> d \<in> set (to_base b n) \<Longrightarrow> d < b"
proof (induction b n arbitrary: d rule: to_base.induct)
  case (1 b n)
  show ?case
  proof (cases "n < b")
    case True
    with "1.prems" show ?thesis by (simp add: to_base.simps [of b n])
  next
    case False
    with "1.prems" have "d \<in> set (to_base b (n div b)) \<or> d = n mod b"
      by (auto simp add: to_base.simps [of b n])
    with "1.IH" "1.prems"(1) False show ?thesis by auto
  qed
qed

lemma to_base_nonempty: "to_base b n \<noteq> []"
  by (simp add: to_base.simps [of b n])

lemma from_digits_snoc: "from_digits (ds @ [d]) = from_digits ds * 10 + d"
  by (simp add: from_digits_def)

lemma from_digits_to_base: "from_digits (to_base 10 n) = n"
proof (induction "10 :: nat" n rule: to_base.induct)
  case (1 n)
  show ?case
  proof (cases "n < 10")
    case True
    then show ?thesis by (simp add: to_base.simps [of 10 n] from_digits_def)
  next
    case False
    with 1 have "from_digits (to_base 10 (n div 10)) = n div 10" by simp
    with False show ?thesis by (simp add: to_base.simps [of 10 n] from_digits_snoc)
  qed
qed

lemma hd_to_base: "0 < n \<Longrightarrow> hd (to_base 10 n) \<noteq> 0"
proof (induction "10 :: nat" n rule: to_base.induct)
  case (1 n)
  show ?case
  proof (cases "n < 10")
    case True
    with "1.prems" show ?thesis by (simp add: to_base.simps [of 10 n])
  next
    case False
    then have "0 < n div 10" by simp
    with 1 False have "hd (to_base 10 (n div 10)) \<noteq> 0" by simp
    with False show ?thesis by (simp add: to_base.simps [of 10 n] to_base_nonempty hd_append)
  qed
qed

lemma length_to_base: "0 < k \<Longrightarrow> n < 10 ^ k \<Longrightarrow> length (to_base 10 n) \<le> k"
proof (induction "10 :: nat" n arbitrary: k rule: to_base.induct)
  case (1 n)
  show ?case
  proof (cases "n < 10")
    case True
    with "1.prems" show ?thesis by (simp add: to_base.simps [of 10 n])
  next
    case False
    with "1.prems" obtain j where k: "k = Suc j" by (cases k) auto
    from False "1.prems" k have "0 < j" by (cases j) auto
    moreover from "1.prems"(2) k have "n div 10 < 10 ^ j"
      by (simp add: less_mult_imp_div_less mult.commute)
    ultimately have "length (to_base 10 (n div 10)) \<le> j" using 1 False by simp
    with False k show ?thesis by (simp add: to_base.simps [of 10 n])
  qed
qed

text \<open>The digits of a number as text.\<close>

lemma digit_text:
  assumes "n < 10 ^ 21"
  shows "pos_int_to_string n = map digit_char (to_base 10 n)"
    and "list_all is_digit (pos_int_to_string n)"
    and "pos_int_to_string n \<noteq> []"
    and "digits_value (pos_int_to_string n) = n"
    and "1 < length (pos_int_to_string n) \<longrightarrow> hd (pos_int_to_string n) \<noteq> 48"
proof -
  from assms have "length (to_base 10 n) \<le> 21" by (intro length_to_base) simp_all
  then show p: "pos_int_to_string n = map digit_char (to_base 10 n)"
    by (simp add: pos_int_to_string_def Let_def)
  have d: "\<forall>d \<in> set (to_base 10 n). d < 10" using to_base_digits [of 10 _ n] by simp
  then show "list_all is_digit (pos_int_to_string n)"
    unfolding p by (auto simp: list_all_iff digit_char_def is_digit_def)
  show "pos_int_to_string n \<noteq> []" unfolding p by (simp add: to_base_nonempty)
  from d have "map (\<lambda>c. c - 48) (map digit_char (to_base 10 n)) = to_base 10 n"
    by (simp add: map_idI digit_char_def)
  then show "digits_value (pos_int_to_string n) = n"
    unfolding p by (simp add: digits_value_def from_digits_to_base)
  show "1 < length (pos_int_to_string n) \<longrightarrow> hd (pos_int_to_string n) \<noteq> 48"
  proof (cases "n = 0")
    case True
    then show ?thesis unfolding p by (simp add: to_base.simps [of 10 0])
  next
    case False
    then have "hd (to_base 10 n) \<noteq> 0" by (intro hd_to_base) simp
    moreover have "hd (to_base 10 n) < 10" using d to_base_nonempty [of 10 n] by simp
    ultimately show ?thesis
      unfolding p by (simp add: hd_map to_base_nonempty digit_char_def)
  qed
qed

lemma takeWhile_digits:
  assumes "list_all is_digit ds" "ends_number rest"
  shows "takeWhile is_digit (ds @ rest) = ds" "dropWhile is_digit (ds @ rest) = rest"
proof -
  from assms(2) have t: "takeWhile is_digit rest = []" "dropWhile is_digit rest = rest"
    by (cases rest; simp add: ends_number_def)+
  from assms(1) have a: "\<And>x. x \<in> set ds \<Longrightarrow> is_digit x" by (simp add: list_all_iff)
  from a t show "takeWhile is_digit (ds @ rest) = ds" by (simp add: takeWhile_append2)
  from a t show "dropWhile is_digit (ds @ rest) = rest" by (simp add: dropWhile_append2)
qed

lemma exponent_part_none: "ends_number rest \<Longrightarrow> exponent_part rest = Some (0, rest)"
  by (cases rest) (auto simp: exponent_part_def ends_number_def)

lemma not_dot: "ends_number rest \<Longrightarrow> \<not> starts 46 rest"
  by (auto simp: ends_number_def starts_def)

lemma parse_unsigned:
  assumes "n < 10 ^ 21" "ends_number rest"
  shows "parse_unsigned_number (pos_int_to_string n @ rest) = Some (Integer (int n), rest)"
proof -
  let ?ds = "pos_int_to_string n"
  note t = digit_text [OF assms(1)]
  from t(5) have lead: "\<not> (1 < length ?ds \<and> hd ?ds = 48)" by blast
  from takeWhile_digits [OF t(2) assms(2)] not_dot [OF assms(2)]
    exponent_part_none [OF assms(2)] t(3,4) lead
  show ?thesis
    by (simp add: parse_unsigned_number_def Let_def decimal_value_def)
qed

lemma parse_integer:
  assumes "\<bar>n\<bar> < 10 ^ 21" "ends_number rest"
  shows "parse_number (num_to_string (Integer n) @ rest) = Some (Integer n, rest)"
proof (cases "n < 0")
  case False
  with assms(1) have b: "nat n < 10 ^ 21" by (simp add: nat_less_iff)
  note t = digit_text [OF b]
  from t(2,3) have "is_digit (hd (pos_int_to_string (nat n)))"
    by (cases "pos_int_to_string (nat n)") simp_all
  then have "hd (pos_int_to_string (nat n)) \<noteq> 45" by (auto simp: is_digit_def)
  with t(3) have "\<not> starts 45 (pos_int_to_string (nat n) @ rest)" by (simp add: starts_def)
  with parse_unsigned [OF b assms(2)] False show ?thesis by (simp add: parse_number_def)
next
  case True
  with assms(1) have b: "nat (- n) < 10 ^ 21" by (simp add: nat_less_iff)
  from parse_unsigned [OF b assms(2)] True show ?thesis
    by (simp add: parse_number_def starts_def)
qed

lemma number_head:
  assumes "\<bar>n\<bar> < 10 ^ 21"
  obtains c cs where "num_to_string (Integer n) = c # cs" "is_digit c \<or> c = 45"
proof (cases "n < 0")
  case True
  then show ?thesis using that by simp
next
  case False
  with assms have "nat n < 10 ^ 21" by (simp add: nat_less_iff)
  note t = digit_text [OF this]
  from t(2,3) obtain c cs where "pos_int_to_string (nat n) = c # cs" "is_digit c"
    by (cases "pos_int_to_string (nat n)") simp_all
  with False that show ?thesis by simp
qed

lemma parse_value_number:
  assumes "\<bar>n\<bar> < 10 ^ 21" "ends_number rest"
  shows "parse_value (Suc f) (num_to_string (Integer n) @ rest) = Some (JNum (Integer n), rest)"
proof -
  from assms(1) obtain c cs where h: "num_to_string (Integer n) = c # cs" "is_digit c \<or> c = 45"
    by (rule number_head)
  from h(2) have c: "\<not> is_json_ws c" "c \<noteq> 34" "c \<noteq> 91" "c \<noteq> 123" "c \<noteq> 116" "c \<noteq> 102" "c \<noteq> 110"
    by (auto simp: is_digit_def is_json_ws_def)
  from parse_integer [OF assms] have p: "parse_number (c # cs @ rest) = Some (Integer n, rest)"
    unfolding h(1) by simp
  show ?thesis
    unfolding h(1) using c p by (simp add: skip_ws_def)
qed

text \<open>Strings. What \<open>quote\<close> writes, the parser reads back, whatever the code units.\<close>

lemma hex_lower: "d < 16 \<Longrightarrow> hex_val (digit_char d) = Some d"
  by (auto simp: hex_val_def digit_char_def)

lemma hex4_value_hex4:
  assumes "c < 65536"
  shows "hex4_value (digit_char (c div 4096 mod 16)) (digit_char (c div 256 mod 16))
           (digit_char (c div 16 mod 16)) (digit_char (c mod 16)) = Some c"
proof -
  have e: "c div 256 = c div 16 div 16" "c div 4096 = c div 16 div 16 div 16"
    by (simp_all add: div_mult2_eq [symmetric])
  from assms have "c div 4096 < 16" by simp
  then have t: "c div 4096 mod 16 = c div 4096" by simp
  have "((c div 16 div 16 div 16 * 16 + c div 16 div 16 mod 16) * 16 + c div 16 mod 16) * 16
          + c mod 16 = c" by simp
  then have "((c div 4096 * 16 + c div 256 mod 16) * 16 + c div 16 mod 16) * 16 + c mod 16 = c"
    by (simp only: e)
  then have v: "((c div 4096 mod 16 * 16 + c div 256 mod 16) * 16 + c div 16 mod 16) * 16
          + c mod 16 = c" by (simp only: t)
  have h: "hex_val (digit_char (c div 4096 mod 16)) = Some (c div 4096 mod 16)"
    "hex_val (digit_char (c div 256 mod 16)) = Some (c div 256 mod 16)"
    "hex_val (digit_char (c div 16 mod 16)) = Some (c div 16 mod 16)"
    "hex_val (digit_char (c mod 16)) = Some (c mod 16)"
    by (simp_all add: hex_lower)
  show ?thesis by (simp only: hex4_value_def h option.case v)
qed

lemma parse_unicode_escape:
  assumes "c < 65536" "parse_string_body txt = Some (s, rest)"
  shows "parse_string_body (unicode_escape c @ txt) = Some (c # s, rest)"
  using assms hex4_value_hex4 [OF assms(1)]
  by (simp add: unicode_escape_def hex4_def cons_unit_def)

lemma parse_short_escape:
  assumes "escape_char e = Some c" "e \<noteq> 117" "parse_string_body txt = Some (s, rest)"
  shows "parse_string_body (92 # e # txt) = Some (c # s, rest)"
  using assms by (simp add: cons_unit_def)

lemma parse_plain:
  assumes "32 \<le> c" "c \<noteq> 34" "c \<noteq> 92" "parse_string_body txt = Some (s, rest)"
  shows "parse_string_body (c # txt) = Some (c # s, rest)"
  using assms by (simp add: cons_unit_def)

lemma surrogate_plain:
  "is_high_surrogate c \<or> is_low_surrogate c \<Longrightarrow> 32 \<le> c \<and> c \<noteq> 34 \<and> c \<noteq> 92 \<and> c < 65536"
  by (auto simp: is_high_surrogate_def is_low_surrogate_def)

lemma quote_short:
  assumes "c \<in> {8, 9, 10, 12, 13, 34, 92}"
  shows "\<exists>e. quote_units (c # cs) = 92 # e # quote_units cs \<and> escape_char e = Some c \<and> e \<noteq> 117"
  using assms by (auto simp: escape_char_def)

lemma parse_quote_units: "parse_string_body (quote_units s @ 34 # rest) = Some (s, rest)"
proof (induction s rule: quote_units.induct)
  case 1
  show ?case by simp
next
  case (2 c cs)
  consider (short) "c \<in> {8, 9, 10, 12, 13, 34, 92}"
    | (control) "c \<notin> {8, 9, 10, 12, 13, 34, 92}" "c < 32"
    | (pair) d ds where "c \<notin> {8, 9, 10, 12, 13, 34, 92}" "\<not> c < 32" "is_high_surrogate c"
        "cs = d # ds" "is_low_surrogate d"
    | (lone_high) "c \<notin> {8, 9, 10, 12, 13, 34, 92}" "\<not> c < 32" "is_high_surrogate c"
        "cs = [] \<or> \<not> is_low_surrogate (hd cs)"
    | (lone_low) "c \<notin> {8, 9, 10, 12, 13, 34, 92}" "\<not> c < 32" "\<not> is_high_surrogate c"
        "is_low_surrogate c"
    | (plain) "c \<notin> {8, 9, 10, 12, 13, 34, 92}" "\<not> c < 32" "\<not> is_high_surrogate c"
        "\<not> is_low_surrogate c"
    by (cases cs) auto
  then show ?case
  proof cases
    case short
    then have ih: "parse_string_body (quote_units cs @ 34 # rest) = Some (cs, rest)"
      using "2.IH"(1-7) by auto
    from quote_short [OF short, of cs] obtain e where
      e: "quote_units (c # cs) = 92 # e # quote_units cs" "escape_char e = Some c" "e \<noteq> 117"
      by blast
    from parse_short_escape [OF e(2,3) ih] show ?thesis by (simp only: e(1) append_Cons)
  next
    case control
    then have ih: "parse_string_body (quote_units cs @ 34 # rest) = Some (cs, rest)"
      using "2.IH"(8) by auto
    from control have "c < 65536" by simp
    from parse_unicode_escape [OF this ih] control show ?thesis by auto
  next
    case pair
    then have ih: "parse_string_body (quote_units ds @ 34 # rest) = Some (ds, rest)"
      using "2.IH"(9) by auto
    from surrogate_plain [of c] surrogate_plain [of d] pair
    have "parse_string_body (c # d # quote_units ds @ 34 # rest) = Some (c # d # ds, rest)"
      by (intro parse_plain ih) auto
    with pair show ?thesis by auto
  next
    case lone_high
    show ?thesis
    proof (cases cs)
      case Nil
      from surrogate_plain [of c] lone_high have "c < 65536" by simp
      from parse_unicode_escape [OF this, of "34 # rest" "[]" rest] lone_high Nil
      show ?thesis by auto
    next
      case (Cons d ds)
      with lone_high have nd: "\<not> is_low_surrogate d" by simp
      with lone_high Cons have ih: "parse_string_body (quote_units cs @ 34 # rest) = Some (cs, rest)"
        using "2.IH"(10) by auto
      from surrogate_plain [of c] lone_high have "c < 65536" by simp
      from parse_unicode_escape [OF this ih] lone_high Cons nd show ?thesis by auto
    qed
  next
    case lone_low
    then have ih: "parse_string_body (quote_units cs @ 34 # rest) = Some (cs, rest)"
      using "2.IH"(11) by auto
    from surrogate_plain [of c] lone_low have "c < 65536" by simp
    from parse_unicode_escape [OF this ih] lone_low show ?thesis by auto
  next
    case plain
    then have ih: "parse_string_body (quote_units cs @ 34 # rest) = Some (cs, rest)"
      using "2.IH"(12) by auto
    from plain have "32 \<le> c" "c \<noteq> 34" "c \<noteq> 92" by auto
    from parse_plain [OF this ih] plain show ?thesis by auto
  qed
qed

lemma parse_value_string:
  "parse_value (Suc f) (quote s @ rest) = Some (JStr s, rest)"
  using parse_quote_units [of s rest]
  by (simp add: quote_def skip_ws_def is_json_ws_def)

text \<open>Arrays of strings, and the members of an object.\<close>

lemma skip_ws_plain: "\<not> is_json_ws c \<Longrightarrow> skip_ws (c # cs) = c # cs"
  by (simp add: skip_ws_def)

lemma skip_ws_quote: "skip_ws (quote s @ rest) = quote s @ rest"
  by (simp add: quote_def skip_ws_def is_json_ws_def)

lemma stringify_strings: "stringify_elements (map JStr ts) = map quote ts"
  by (induction ts) simp_all

lemma parse_string_elements:
  "length ts + 2 \<le> f \<Longrightarrow>
     parse_elements f (join [44] (map quote (t # ts)) @ 93 # rest) = Some (map JStr (t # ts), rest)"
proof (induction ts arbitrary: t f)
  case Nil
  then obtain g where f: "f = Suc (Suc g)" by (cases f; cases "f - 1") auto
  show ?case unfolding f
    using parse_value_string [of g t "93 # rest"]
    by (simp add: skip_ws_def is_json_ws_def starts_def)
next
  case (Cons u us)
  then obtain g where f: "f = Suc (Suc g)" by (cases f; cases "f - 1") auto
  with Cons.prems have "length us + 2 \<le> Suc g" by simp
  from Cons.IH [OF this, of u]
  have ih: "parse_elements (Suc g) (join [44] (map quote (u # us)) @ 93 # rest)
              = Some (map JStr (u # us), rest)" .
  have "parse_value (Suc g) (quote t @ 44 # join [44] (map quote (u # us)) @ 93 # rest)
          = Some (JStr t, 44 # join [44] (map quote (u # us)) @ 93 # rest)"
    by (rule parse_value_string)
  with ih show ?case unfolding f
    by (simp add: skip_ws_def is_json_ws_def starts_def)
qed

lemma parse_string_array:
  assumes "length ts < f"
  shows "parse_value (Suc f) (91 # join [44] (map quote ts) @ 93 # rest)
           = Some (JArr (map JStr ts), rest)"
proof (cases ts)
  case Nil
  then show ?thesis by (simp add: skip_ws_def is_json_ws_def starts_def)
next
  case (Cons t us)
  with assms have "length us + 2 \<le> f" by simp
  from parse_string_elements [OF this, of t rest]
  have e: "parse_elements f (join [44] (map quote (t # us)) @ 93 # rest)
             = Some (map JStr (t # us), rest)" .
  have q: "skip_ws (join [44] (map quote (t # us)) @ 93 # rest)
             = join [44] (map quote (t # us)) @ 93 # rest"
    by (cases us) (simp_all add: quote_def skip_ws_def is_json_ws_def)
  have s: "\<not> starts 93 (join [44] (map quote (t # us)) @ 93 # rest)"
    by (cases us) (simp_all add: quote_def starts_def)
  show ?thesis unfolding Cons using e q s
    by (simp add: skip_ws_def is_json_ws_def)
qed

text \<open>One member of an object, by the kind of its value.\<close>

lemma member_key:
  "parse_members (Suc f) acc (quote k @ 58 # txt) =
     (case parse_value f txt of
        None \<Rightarrow> None
      | Some (v, r3) \<Rightarrow>
          if starts 44 (skip_ws r3) then parse_members f (obj_put acc k v) (tl (skip_ws r3))
          else if starts 125 (skip_ws r3) then Some (JObj (obj_put acc k v), tl (skip_ws r3))
          else None)"
proof -
  have "parse_string_body (quote_units k @ 34 # 58 # txt) = Some (k, 58 # txt)"
    by (rule parse_quote_units)
  then show ?thesis
    by (simp add: quote_def skip_ws_def is_json_ws_def starts_def)
qed

lemma member_string:
  "parse_members (Suc (Suc f)) acc (quote k @ 58 # quote s @ 44 # txt)
     = parse_members (Suc f) (obj_put acc k (JStr s)) txt"
  using parse_value_string [of f s "44 # txt"]
  by (simp only: member_key) (simp add: skip_ws_def is_json_ws_def starts_def)

lemma member_array:
  assumes "length ts < f"
  shows "parse_members (Suc (Suc f)) acc (quote k @ 58 # 91 # join [44] (map quote ts) @ 93 # 44 # txt)
           = parse_members (Suc f) (obj_put acc k (JArr (map JStr ts))) txt"
  using parse_string_array [OF assms, of "44 # txt"]
  by (simp only: member_key) (simp add: skip_ws_def is_json_ws_def starts_def)

lemma member_number:
  assumes "\<bar>n\<bar> < 10 ^ 21"
  shows "parse_members (Suc (Suc f)) acc (quote k @ 58 # num_to_string (Integer n) @ 44 # txt)
           = parse_members (Suc f) (obj_put acc k (JNum (Integer n))) txt"
proof -
  have "ends_number (44 # txt)" by (simp add: ends_number_def is_digit_def)
  from parse_value_number [OF assms this, of f] show ?thesis
    by (simp only: member_key) (simp add: skip_ws_def is_json_ws_def starts_def)
qed

lemma member_number_last:
  assumes "\<bar>n\<bar> < 10 ^ 21"
  shows "parse_members (Suc (Suc f)) acc (quote k @ 58 # num_to_string (Integer n) @ 125 # txt)
           = Some (JObj (obj_put acc k (JNum (Integer n))), txt)"
proof -
  have "ends_number (125 # txt)" by (simp add: ends_number_def is_digit_def)
  from parse_value_number [OF assms this, of f] show ?thesis
    by (simp only: member_key) (simp add: skip_ws_def is_json_ws_def starts_def)
qed

text \<open>An item: the text that \<open>JSON.stringify\<close> writes for it, read back.\<close>

lemma item_text_append: "item_text it r @ rest = item_text it (r @ rest)"
  by (simp add: item_text_def)

lemma stringify_item: "JSON_stringify (item_js it) = Some (item_text it [])"
  by (simp add: item_js_def item_text_def stringify_strings num_finite_def
        del: num_to_string.simps)

lemma stringify_items: "stringify_elements (map item_js L) = map (\<lambda>it. item_text it []) L"
  by (induction L) (simp_all add: stringify_item)

lemma stringify_list: "JSON_stringify (JArr (map item_js L)) = Some (list_text L)"
  by (simp add: stringify_items list_text_def)

lemma object_open: "parse_value (Suc f) (123 # quote k @ txt) = parse_members f [] (quote k @ txt)"
  by (simp add: skip_ws_def is_json_ws_def starts_def quote_def)

lemma put_chain:
  "obj_put (obj_put (obj_put (obj_put (obj_put (obj_put (obj_put (obj_put []
     (ascii ''id'') a) (ascii ''title'') b) (ascii ''content'') c) (ascii ''caution'') d)
     (ascii ''link'') e) (ascii ''tags'') g) (ascii ''createdAt'') h) (ascii ''updatedAt'') i
   = [(ascii ''id'', a), (ascii ''title'', b), (ascii ''content'', c), (ascii ''caution'', d),
      (ascii ''link'', e), (ascii ''tags'', g), (ascii ''createdAt'', h), (ascii ''updatedAt'', i)]"
  by (simp add: obj_put_def array_index_def is_digit_def)

lemma safe_int_bound: "safe_int n \<Longrightarrow> \<bar>n\<bar> < 10 ^ 21"
  by (simp add: safe_int_def)

lemma parse_item:
  assumes "length (item_tags it) \<le> g" "safe_int (item_createdAt it)" "safe_int (item_updatedAt it)"
  shows "parse_value (10 + g) (item_text it rest) = Some (item_js it, rest)"
proof -
  have fuel: "10 + g = Suc (Suc (Suc (Suc (Suc (Suc (Suc (Suc (Suc (Suc g)))))))))" by simp
  from assms(1) have lt: "length (item_tags it) < Suc (Suc g)" by simp
  note c = safe_int_bound [OF assms(2)] and u = safe_int_bound [OF assms(3)]
  show ?thesis
    unfolding fuel item_text_def
    by (simp only: object_open member_string
          member_array [where f = "Suc (Suc g)" and ts = "item_tags it", OF lt]
          member_number [OF c] member_number_last [OF u] put_chain item_js_def)
qed

text \<open>A list of items; the length of its text is fuel enough.\<close>

lemma item_text_head: "\<exists>cs. item_text it rest = 123 # cs"
  by (simp add: item_text_def)

lemma join_item_head: "\<exists>cs. join [44] (map (\<lambda>it. item_text it []) (it # its)) @ rest = 123 # cs"
  by (cases its) (simp_all add: item_text_def)

lemma element_more:
  "parse_value f txt = Some (v, 44 # rst) \<Longrightarrow> parse_elements f rst = Some (vs, r)
     \<Longrightarrow> parse_elements (Suc f) txt = Some (v # vs, r)"
  by (simp add: skip_ws_def is_json_ws_def starts_def)

lemma element_last:
  "parse_value f txt = Some (v, 93 # rst) \<Longrightarrow> parse_elements (Suc f) txt = Some ([v], rst)"
  by (simp add: skip_ws_def is_json_ws_def starts_def)

lemma array_open:
  "parse_elements f (123 # cs) = Some (vs, r)
     \<Longrightarrow> parse_value (Suc f) (91 # 123 # cs) = Some (JArr vs, r)"
  by (simp add: skip_ws_def is_json_ws_def starts_def)

lemma parse_item_elements:
  assumes "\<forall>x \<in> set (it # its). length (item_tags x) + 10 + length its \<le> f
             \<and> safe_int (item_createdAt x) \<and> safe_int (item_updatedAt x)"
  shows "parse_elements (Suc f) (join [44] (map (\<lambda>it. item_text it []) (it # its)) @ 93 # rest)
           = Some (map item_js (it # its), rest)"
  using assms
proof (induction its arbitrary: it f)
  case Nil
  then have b: "length (item_tags it) \<le> f - 10" "f = 10 + (f - 10)"
    "safe_int (item_createdAt it)" "safe_int (item_updatedAt it)" by auto
  from parse_item [OF b(1,3,4), of "93 # rest"] b(2)
  have "parse_value f (item_text it (93 # rest)) = Some (item_js it, 93 # rest)" by simp
  from element_last [OF this] show ?case
    by (simp add: item_text_append del: parse_elements.simps)
next
  case (Cons y ys)
  let ?more = "join [44] (map (\<lambda>it. item_text it []) (y # ys)) @ 93 # rest"
  from Cons.prems have b: "length (item_tags it) \<le> f - 10" "f = 10 + (f - 10)"
    "safe_int (item_createdAt it)" "safe_int (item_updatedAt it)" by auto
  from parse_item [OF b(1,3,4), of "44 # ?more"] b(2)
  have v: "parse_value f (item_text it (44 # ?more)) = Some (item_js it, 44 # ?more)" by simp
  from Cons.prems obtain g where g: "f = Suc g" by (cases f) auto
  with Cons.prems have "\<forall>x \<in> set (y # ys). length (item_tags x) + 10 + length ys \<le> g
      \<and> safe_int (item_createdAt x) \<and> safe_int (item_updatedAt x)" by auto
  from Cons.IH [OF this]
  have ih: "parse_elements f ?more = Some (map item_js (y # ys), rest)" unfolding g .
  have j: "join [44] (map (\<lambda>it. item_text it []) (it # y # ys)) @ 93 # rest
             = item_text it (44 # ?more)"
    by (simp add: item_text_append)
  from element_more [OF v ih] show ?case unfolding j by simp
qed

lemma length_join:
  "length (join [s] xs) = sum_list (map length xs) + (length xs - 1)"
  by (induction "[s]" xs rule: join.induct) simp_all

lemma length_quoted: "length ts \<le> sum_list (map length (map quote ts))"
  by (induction ts) (simp_all add: quote_def)

lemma item_text_long: "length (item_tags it) + 10 \<le> length (item_text it [])"
proof -
  have "length (item_tags it) \<le> length (join [44] (map quote (item_tags it)))"
    using length_quoted [of "item_tags it"] by (simp add: length_join)
  then show ?thesis by (simp add: item_text_def)
qed

lemma list_text_long:
  assumes "x \<in> set L"
  shows "length (item_tags x) + 10 + (length L - 1) \<le> length (join [44] (map (\<lambda>it. item_text it []) L))"
proof -
  from assms have "length (item_text x []) \<le> sum_list (map length (map (\<lambda>it. item_text it []) L))"
    by (intro member_le_sum_list) simp_all
  with item_text_long [of x] show ?thesis by (simp add: length_join)
qed

lemma parse_list:
  assumes "list_all valid_item L"
  shows "JSON_parse (list_text L) = Inr (JArr (map item_js L))"
proof (cases L)
  case Nil
  then show ?thesis
    by (simp add: JSON_parse_def list_text_def skip_ws_def is_json_ws_def starts_def)
next
  case (Cons it its)
  let ?body = "join [44] (map (\<lambda>it. item_text it []) (it # its))"
  have "\<forall>x \<in> set (it # its). length (item_tags x) + 10 + length its \<le> Suc (length ?body)
          \<and> safe_int (item_createdAt x) \<and> safe_int (item_updatedAt x)"
  proof
    fix x assume x: "x \<in> set (it # its)"
    from list_text_long [OF x] have "length (item_tags x) + 10 + length its \<le> length ?body"
      by simp
    moreover from assms x Cons have "valid_item x" by (auto simp: list_all_iff)
    ultimately show "length (item_tags x) + 10 + length its \<le> Suc (length ?body)
          \<and> safe_int (item_createdAt x) \<and> safe_int (item_updatedAt x)"
      by (simp add: valid_item_def)
  qed
  from parse_item_elements [OF this, of "[]"]
  have e: "parse_elements (Suc (Suc (length ?body))) (?body @ [93])
             = Some (map item_js (it # its), [])" .
  from join_item_head [of it its "[93]"] obtain cs where h: "?body @ [93] = 123 # cs" by blast
  have len: "length (list_text L) = Suc (Suc (length ?body))"
    unfolding Cons by (simp add: list_text_def)
  have "parse_value (Suc (Suc (Suc (length ?body)))) (91 # ?body @ [93])
          = Some (JArr (map item_js (it # its)), [])"
    using e unfolding h by (rule array_open)
  then have "parse_value (Suc (length (list_text L))) (list_text L) = Some (JArr (map item_js L), [])"
    unfolding len unfolding Cons list_text_def .
  then show ?thesis
    by (simp add: JSON_parse_def skip_ws_def del: parse_value.simps)
qed

text \<open>The text that \<open>JSON.stringify\<close> writes is well formed.\<close>

lemma well_formed_append: "well_formed xs \<Longrightarrow> well_formed ys \<Longrightarrow> well_formed (xs @ ys)"
  by (induction xs rule: well_formed.induct) (auto split: list.splits if_splits)

lemma well_formed_plain: "c < 55296 \<Longrightarrow> well_formed (c # cs) = well_formed cs"
  by (simp add: is_high_surrogate_def is_low_surrogate_def)

lemma well_formed_low: "list_all (\<lambda>c. c < 55296) xs \<Longrightarrow> well_formed (xs @ ys) = well_formed ys"
  by (induction xs) (simp_all add: well_formed_plain del: well_formed.simps(2))

lemma digit_low: "digit_char (x mod 16) < 55296"
proof -
  have "x mod 16 < 16" by simp
  then show ?thesis by (auto simp: digit_char_def)
qed

lemma well_formed_escape: "well_formed (unicode_escape c @ txt) = well_formed txt"
  by (intro well_formed_low) (simp add: unicode_escape_def hex4_def digit_low)

lemma well_formed_quote_units:
  "is_jsstring s \<Longrightarrow> well_formed txt \<Longrightarrow> well_formed (quote_units s @ txt)"
proof (induction s rule: quote_units.induct)
  case 1
  then show ?case by simp
next
  case (2 c cs)
  from "2.prems" have u: "c < 65536" "is_jsstring cs" by (simp_all add: is_jsstring_def is_unit_def)
  consider (short) "c \<in> {8, 9, 10, 12, 13, 34, 92}"
    | (control) "c \<notin> {8, 9, 10, 12, 13, 34, 92}" "c < 32"
    | (pair) d ds where "c \<notin> {8, 9, 10, 12, 13, 34, 92}" "\<not> c < 32" "is_high_surrogate c"
        "cs = d # ds" "is_low_surrogate d"
    | (lone_high) "c \<notin> {8, 9, 10, 12, 13, 34, 92}" "\<not> c < 32" "is_high_surrogate c"
        "cs = [] \<or> \<not> is_low_surrogate (hd cs)"
    | (lone_low) "c \<notin> {8, 9, 10, 12, 13, 34, 92}" "\<not> c < 32" "\<not> is_high_surrogate c"
        "is_low_surrogate c"
    | (plain) "c \<notin> {8, 9, 10, 12, 13, 34, 92}" "\<not> c < 32" "\<not> is_high_surrogate c"
        "\<not> is_low_surrogate c"
    by (cases cs) auto
  then show ?case
  proof cases
    case short
    then have ih: "well_formed (quote_units cs @ txt)"
      using "2.IH"(1-7) u(2) "2.prems"(2) by auto
    from quote_short [OF short, of cs] obtain e where
      e: "quote_units (c # cs) = 92 # e # quote_units cs" "escape_char e = Some c" by blast
    from e(2) have "e < 55296" by (auto simp: escape_char_def split: if_splits)
    with ih show ?thesis by (simp only: e(1) append_Cons) (simp add: well_formed_plain del: well_formed.simps(2))
  next
    case control
    then have ih: "well_formed (quote_units cs @ txt)"
      using "2.IH"(8) u(2) "2.prems"(2) by auto
    from control have "quote_units (c # cs) = unicode_escape c @ quote_units cs" by auto
    with ih show ?thesis by (simp only: append_assoc well_formed_escape)
  next
    case pair
    from u(2) pair have "is_jsstring ds" by (simp add: is_jsstring_def)
    with pair have ih: "well_formed (quote_units ds @ txt)"
      using "2.IH"(9) "2.prems"(2) by auto
    from pair have "quote_units (c # cs) = c # d # quote_units ds" by auto
    with ih pair show ?thesis by simp
  next
    case lone_high
    have q: "quote_units (c # cs) = unicode_escape c @ quote_units cs"
      using lone_high by (cases cs) auto
    have ih: "well_formed (quote_units cs @ txt)"
    proof (cases cs)
      case Nil
      with "2.prems"(2) show ?thesis by simp
    next
      case (Cons d ds)
      with lone_high have "\<not> is_low_surrogate d" by simp
      with lone_high Cons u(2) "2.prems"(2) show ?thesis using "2.IH"(10) by auto
    qed
    with q show ?thesis by (simp only: append_assoc well_formed_escape)
  next
    case lone_low
    then have ih: "well_formed (quote_units cs @ txt)"
      using "2.IH"(11) u(2) "2.prems"(2) by auto
    from lone_low have "quote_units (c # cs) = unicode_escape c @ quote_units cs" by auto
    with ih show ?thesis by (simp only: append_assoc well_formed_escape)
  next
    case plain
    then have ih: "well_formed (quote_units cs @ txt)"
      using "2.IH"(12) u(2) "2.prems"(2) by auto
    from plain have "quote_units (c # cs) = c # quote_units cs" by auto
    with ih plain u(1) show ?thesis by simp
  qed
qed

lemma well_formed_quote:
  "is_jsstring s \<Longrightarrow> well_formed txt \<Longrightarrow> well_formed (quote s @ txt)"
  using well_formed_quote_units [of s "34 # txt"]
  by (simp add: quote_def well_formed_plain del: well_formed.simps(2))

lemma well_formed_number:
  assumes "safe_int n" "well_formed txt"
  shows "well_formed (num_to_string (Integer n) @ txt)"
proof -
  have d: "list_all (\<lambda>c. c < 55296) (pos_int_to_string m)" if "m < 10 ^ 21" for m
    using digit_text(2) [OF that] by (auto simp: list_all_iff is_digit_def)
  from assms(1) have "nat n < 10 ^ 21" "nat (- n) < 10 ^ 21"
    by (simp_all add: safe_int_def nat_less_iff)
  from d [OF this(1)] d [OF this(2)] assms(2) show ?thesis
    by (simp add: well_formed_low well_formed_plain del: well_formed.simps(2))
qed

lemma well_formed_strings:
  "list_all is_jsstring ts \<Longrightarrow> well_formed txt \<Longrightarrow> well_formed (join [44] (map quote ts) @ txt)"
proof (induction ts rule: induct_list012)
  case 1
  then show ?case by simp
next
  case (2 t)
  then show ?case by (simp add: well_formed_quote)
next
  case (3 t u us)
  then have "well_formed (44 # join [44] (map quote (u # us)) @ txt)"
    by (simp add: well_formed_plain del: well_formed.simps(2))
  with 3(3) have "well_formed (quote t @ 44 # join [44] (map quote (u # us)) @ txt)"
    by (intro well_formed_quote) simp_all
  then show ?case by simp
qed

lemma well_formed_item:
  assumes "valid_item it" "well_formed txt"
  shows "well_formed (item_text it txt)"
  using assms unfolding item_text_def valid_item_def
  by (intro well_formed_quote well_formed_number well_formed_strings
        iffD2 [OF well_formed_plain] conjI)
     (simp_all add: is_jsstring_def is_unit_def)

lemma well_formed_items:
  "list_all valid_item L \<Longrightarrow> well_formed txt
     \<Longrightarrow> well_formed (join [44] (map (\<lambda>it. item_text it []) L) @ txt)"
proof (induction L rule: induct_list012)
  case 1
  then show ?case by simp
next
  case (2 x)
  then show ?case by (simp add: item_text_append well_formed_item)
next
  case (3 x y ys)
  then have "well_formed (44 # join [44] (map (\<lambda>it. item_text it []) (y # ys)) @ txt)"
    by (simp add: well_formed_plain del: well_formed.simps(2))
  with 3(3) have "well_formed (item_text x (44 # join [44] (map (\<lambda>it. item_text it []) (y # ys)) @ txt))"
    by (intro well_formed_item) simp_all
  then show ?case by (simp add: item_text_append)
qed

lemma well_formed_list: "list_all valid_item L \<Longrightarrow> well_formed (list_text L)"
  using well_formed_items [of L "[93]"]
  by (simp add: list_text_def well_formed_plain del: well_formed.simps(2))

lemma ebind_assoc: "ebind m (\<lambda>x. ebind (g x) h) = ebind (ebind m g) h"
  by (cases m) (simp_all add: ebind_def)

section \<open>The round trip of the codec\<close>

text \<open>
  Claim C1. For every list of items of the data model, whose strings are any
  sequences of code units, surrogates without a partner included, and whose
  timestamps are integers that a number holds exactly, \<open>encodeData\<close> returns a
  token, and \<open>decodeData\<close> of that token returns the list, field for field.
\<close>

theorem codec_round_trip:
  assumes "list_all valid_item L"
  shows "\<exists>tok. encodeData (JArr (map item_js L)) = Inr tok
           \<and> decodeData tok = Inr (JArr (map item_js L))"
proof -
  from transport [OF well_formed_list [OF assms]] obtain tok where
    t: "ebind (encodeURIComponent (list_text L)) (\<lambda>e. btoa (unescape e)) = Inr tok"
       "ebind (atob tok) (\<lambda>bin. decodeURIComponent (escape bin)) = Inr (list_text L)"
    by blast
  have "encodeData (JArr (map item_js L)) = Inr tok"
    unfolding encodeData_def stringify_list using t(1) by simp
  moreover have "decodeData tok = Inr (JArr (map item_js L))"
    unfolding decodeData_def ebind_assoc t(2) using parse_list [OF assms]
    by (simp add: ebind_def)
  ultimately show ?thesis by blast
qed

theorem codec_round_trip_witness:
  "list_all valid_item [mixed_item, item_B]
   \<and> (\<exists>tok. encodeData (JArr (map item_js [mixed_item, item_B])) = Inr tok
          \<and> decodeData tok = Inr (JArr (map item_js [mixed_item, item_B])))"
proof -
  have v: "list_all valid_item [mixed_item, item_B]"
    by (simp add: valid_item_def mixed_item_def item_B_def is_jsstring_def is_unit_def
        safe_int_def)
  from codec_round_trip [OF v] v show ?thesis by blast
qed

section \<open>Loading\<close>

text \<open>
  Claim C2. \<open>loadData\<close> returns a list for every state of the storage, and never an
  exception: the empty list when the storage cannot be read, when the key is absent,
  when the text is no JSON, and when the JSON is no array; the elements of the array
  otherwise.
\<close>

theorem loadData_cases:
  "loadData store =
     (case store of
        Blocked \<Rightarrow> []
      | Entries m \<Rightarrow>
          (case m STORAGE_KEY of
             None \<Rightarrow> []
           | Some raw \<Rightarrow>
               (case JSON_parse raw of
                  Inl e \<Rightarrow> []
                | Inr parsed \<Rightarrow> (case parsed of JArr xs \<Rightarrow> xs | _ \<Rightarrow> []))))"
  by (auto simp: loadData_def loadData_try_def getItem_def ebind_def JSON_parse_empty
      split: storage.splits option.splits sum.splits jsval.splits)

theorem loadData_witness:
  "loadData Blocked = []
   \<and> loadData (Entries Map.empty) = []
   \<and> loadData (Entries [STORAGE_KEY \<mapsto> ascii ''[1, 2]'']) = [JNum (Integer 1), JNum (Integer 2)]
   \<and> loadData (Entries [STORAGE_KEY \<mapsto> ascii ''[1,'']) = []
   \<and> loadData (Entries [STORAGE_KEY \<mapsto> ascii ''{}'']) = []"
  using loadData_cases [of Blocked] loadData_cases [of "Entries Map.empty"]
    loadData_cases [of "Entries [STORAGE_KEY \<mapsto> ascii ''[1, 2]'']"]
    loadData_cases [of "Entries [STORAGE_KEY \<mapsto> ascii ''[1,'']"]
    loadData_cases [of "Entries [STORAGE_KEY \<mapsto> ascii ''{}'']"]
  by (simp add: parse_eval)

section \<open>Creating an item\<close>

text \<open>
  Claim C3 says that the id of a new item is fresh. The id is made of the clock and of
  random digits, and nothing compares it with the ids in the list: in the state
  \<open>collide\<close> the new item gets the id the old one has.
\<close>

theorem create_counterexample:
  "(case handleSave 1700000000000 1700000000001 (ascii ''k3f9zq'') collide of
      Done st' \<Rightarrow> ids (items st')
    | _ \<Rightarrow> [])
   = [Inr (JStr (ascii ''LOYW3V29K3F9ZQ'')), Inr (JStr (ascii ''LOYW3V29K3F9ZQ''))]"
  using uid_example
  by (simp add: handleSave_def collide_def trim_def is_js_ws_def Let_def ids_def new_item_js item_js_def)

text \<open>
  Claim C3, amended. A title that trims to nothing is answered by the alert, and no
  state is written. Otherwise, with no item being edited, the save finishes with a new
  item in front of the list: its id is the token \<open>uid\<close> makes, its two timestamps are
  the one clock reading, its title is the trimmed one, its tags are the pieces of the
  text between commas, each trimmed, the empty ones dropped. The ids of the list stay
  distinct when the token is not yet an id of the list.
\<close>

theorem create_item:
  "(trim (title st) = [] \<longrightarrow> handleSave now uid_now rnd st = Alert title_required)
   \<and> (trim (title st) \<noteq> [] \<and> \<not> truthy (editingId st) \<longrightarrow>
        handleSave now uid_now rnd st =
          Done (st\<lparr>items :=
                     item_js \<lparr>item_id = uid uid_now rnd,
                              item_title = trim (title st),
                              item_content = content st,
                              item_caution = caution st,
                              item_link = link st,
                              item_tags = filter (\<lambda>s. s \<noteq> []) (map trim (split_on 44 (tagsText st))),
                              item_createdAt = int now,
                              item_updatedAt = int now\<rparr> # items st,
                   selectedId := JStr (uid uid_now rnd),
                   modalOpen := False\<rparr>)
        \<and> (Inr (JStr (uid uid_now rnd)) \<notin> set (ids (items st)) \<and> distinct (ids (items st)) \<longrightarrow>
             (\<forall>st'. handleSave now uid_now rnd st = Done st' \<longrightarrow> distinct (ids (items st')))))"
  by (auto simp: handleSave_def Let_def new_item_js form_tags_def ids_def item_js_def)

theorem create_item_witness:
  "handleSave 5 6 [] (probe\<lparr>title := [32, 12288]\<rparr>) = Alert title_required
   \<and> handleSave 1700000000000 1700000000001 (ascii ''k3f9zq'') (probe\<lparr>editingId := JNull\<rparr>) =
       Done (probe\<lparr>items :=
                     [item_js \<lparr>item_id = ascii ''LOYW3V29K3F9ZQ'',
                              item_title = ascii ''Knee Bend'',
                              item_content = [],
                              item_caution = [],
                              item_link = [],
                              item_tags = [],
                              item_createdAt = 1700000000000,
                              item_updatedAt = 1700000000000\<rparr>, hd (items probe)],
                   selectedId := JStr (ascii ''LOYW3V29K3F9ZQ''),
                   modalOpen := False, editingId := JNull\<rparr>)"
  using create_item [of "probe\<lparr>title := [32, 12288]\<rparr>" 5 6 "[]"]
    create_item [of "probe\<lparr>editingId := JNull\<rparr>" 1700000000000 1700000000001 "ascii ''k3f9zq''"]
    uid_example
  by (simp add: probe_def trim_def is_js_ws_def)

section \<open>Sorting by a timestamp\<close>

text \<open>
  On items that have the key as an integer or not at all, the comparator is the
  difference of the two numbers read, a missing one read as zero.
\<close>

lemma stamped_cases:
  assumes "stamped key it"
  obtains kvs where "it = JObj kvs" "map_of kvs key = None"
  | kvs n where "it = JObj kvs" "map_of kvs key = Some (JNum (Integer n))"
proof (cases it)
  case (JObj kvs)
  show ?thesis
  proof (cases "map_of kvs key")
    case None
    with JObj that(1) show ?thesis by blast
  next
    case (Some v)
    with JObj assms obtain n where "v = JNum (Integer n)"
      by (auto simp: stamped_def split: jsval.splits jsnum.splits)
    with JObj Some that(2) show ?thesis by blast
  qed
qed (use assms in \<open>simp_all add: stamped_def\<close>)

lemma read_stamp:
  assumes "stamped key it"
  shows "\<exists>v. get_prop it key = Inr v
           \<and> ToNumber (js_or v (JNum (Integer 0))) = Inr (Integer (stamp key it))"
  using assms by (cases rule: stamped_cases) (auto simp: stamp_def js_or_def)

lemma compare_stamped:
  assumes "stamped key a" "stamped key b" "key \<noteq> ascii ''title''"
  shows "compare_items lc key a b = Inr (Integer (stamp key b - stamp key a))"
proof -
  from read_stamp [OF assms(1)] obtain av where
    a: "get_prop a key = Inr av" "ToNumber (js_or av (JNum (Integer 0))) = Inr (Integer (stamp key a))"
    by blast
  from read_stamp [OF assms(2)] obtain bv where
    b: "get_prop b key = Inr bv" "ToNumber (js_or bv (JNum (Integer 0))) = Inr (Integer (stamp key b))"
    by blast
  from a b assms(3) show ?thesis by (simp add: compare_items_def ebind_def)
qed

text \<open>The insertion sort under such a comparator: a permutation, in descending order.\<close>

lemma insert_sorted_stamped:
  assumes "\<forall>a \<in> insert x (set ys). \<forall>b \<in> insert x (set ys). cmp a b = Inr (Integer (k b - k a))"
    and "sorted_wrt (\<lambda>a b. k b \<le> k a) ys"
  shows "\<exists>r. insert_sorted cmp x ys = Inr r \<and> mset r = add_mset x (mset ys)
           \<and> sorted_wrt (\<lambda>a b. k b \<le> k a) r"
  using assms
proof (induction ys)
  case Nil
  then show ?case by simp
next
  case (Cons y ys)
  from Cons.prems(1) have c: "cmp x y = Inr (Integer (k y - k x))" by simp
  show ?case
  proof (cases "k x < k y")
    case False
    with c Cons.prems(2) show ?thesis by auto
  next
    case True
    from Cons.prems have "\<exists>r. insert_sorted cmp x ys = Inr r \<and> mset r = add_mset x (mset ys)
           \<and> sorted_wrt (\<lambda>a b. k b \<le> k a) r"
      by (intro Cons.IH) auto
    then obtain r where r: "insert_sorted cmp x ys = Inr r" "mset r = add_mset x (mset ys)"
      "sorted_wrt (\<lambda>a b. k b \<le> k a) r" by blast
    from r(2) have "set r = insert x (set ys)"
      by (metis set_mset_add_mset_insert set_mset_mset)
    with Cons.prems(2) True r c show ?thesis by auto
  qed
qed

lemma sort_by_stamped:
  assumes "\<forall>a \<in> set xs. \<forall>b \<in> set xs. cmp a b = Inr (Integer (k b - k a))"
  shows "\<exists>r. sort_by cmp xs = Inr r \<and> mset r = mset xs \<and> sorted_wrt (\<lambda>a b. k b \<le> k a) r"
  using assms
proof (induction xs)
  case Nil
  then show ?case by simp
next
  case (Cons x xs)
  then obtain r where r: "sort_by cmp xs = Inr r" "mset r = mset xs"
    "sorted_wrt (\<lambda>a b. k b \<le> k a) r" by auto
  from r(2) have s: "set r = set xs" by (metis set_mset_mset)
  from Cons.prems s have "\<forall>a \<in> insert x (set r). \<forall>b \<in> insert x (set r). cmp a b = Inr (Integer (k b - k a))"
    by simp
  from insert_sorted_stamped [OF this r(3)] r show ?case by auto
qed

text \<open>
  Claim C5. For the key \<open>updatedAt\<close>, and the same for \<open>createdAt\<close>: the sort of
  the view writes a new array and no array that was there before, the array of the
  items included; the new array is a permutation of the one sorted; and its items are
  in non-increasing order of the key, an item without the key counting as zero. Stated
  for arrays whose items are objects with the key an integer or absent.
\<close>

theorem sort_by_timestamp:
  assumes "key = ascii ''updatedAt'' \<or> key = ascii ''createdAt''"
    and "base < length h"
    and "\<forall>it \<in> set (h ! base). stamped key it"
  shows "\<exists>ys. sorted_copy localeCompare key base h = Inr (length h, h @ [ys])
           \<and> mset ys = mset (h ! base)
           \<and> sorted_wrt (\<lambda>a b. stamp key b \<le> stamp key a) ys"
proof -
  from assms(1) have nt: "key \<noteq> ascii ''title''" by auto
  with assms(3) have "\<forall>a \<in> set (h ! base). \<forall>b \<in> set (h ! base).
      compare_items localeCompare key a b = Inr (Integer (stamp key b - stamp key a))"
    by (simp add: compare_stamped)
  from sort_by_stamped [OF this] obtain ys where
    ys: "sort_by (compare_items localeCompare key) (h ! base) = Inr ys" "mset ys = mset (h ! base)"
      "sorted_wrt (\<lambda>a b. stamp key b \<le> stamp key a) ys" by blast
  then show ?thesis
    by (simp add: sorted_copy_def alloc_def sort_in_place_def sort_items_def ebind_def)
qed

theorem sort_by_timestamp_witness:
  "(\<exists>ys. sorted_copy (\<lambda>a b. Integer 0) (ascii ''updatedAt'') 0
            [[item_js item_A, JObj [(ascii ''id'', JStr (ascii ''C''))], item_js item_B]]
          = Inr (1, [[item_js item_A, JObj [(ascii ''id'', JStr (ascii ''C''))], item_js item_B], ys])
      \<and> mset ys = mset [item_js item_A, JObj [(ascii ''id'', JStr (ascii ''C''))], item_js item_B]
      \<and> sorted_wrt (\<lambda>a b. stamp (ascii ''updatedAt'') b \<le> stamp (ascii ''updatedAt'') a) ys)
   \<and> sorted_copy (\<lambda>a b. Integer 0) (ascii ''updatedAt'') 0
            [[item_js item_A, JObj [(ascii ''id'', JStr (ascii ''C''))], item_js item_B]]
          = Inr (1, [[item_js item_A, JObj [(ascii ''id'', JStr (ascii ''C''))], item_js item_B],
                     [item_js item_B, item_js item_A, JObj [(ascii ''id'', JStr (ascii ''C''))]]])"
proof
  have "\<forall>it \<in> set ([[item_js item_A, JObj [(ascii ''id'', JStr (ascii ''C''))], item_js item_B]] ! 0).
          stamped (ascii ''updatedAt'') it"
    by (simp add: stamped_def item_js_def)
  from sort_by_timestamp [of "ascii ''updatedAt''" 0 _ "\<lambda>a b. Integer 0", OF _ _ this]
  show "\<exists>ys. sorted_copy (\<lambda>a b. Integer 0) (ascii ''updatedAt'') 0
            [[item_js item_A, JObj [(ascii ''id'', JStr (ascii ''C''))], item_js item_B]]
          = Inr (1, [[item_js item_A, JObj [(ascii ''id'', JStr (ascii ''C''))], item_js item_B], ys])
      \<and> mset ys = mset [item_js item_A, JObj [(ascii ''id'', JStr (ascii ''C''))], item_js item_B]
      \<and> sorted_wrt (\<lambda>a b. stamp (ascii ''updatedAt'') b \<le> stamp (ascii ''updatedAt'') a) ys"
    by simp
next
  show "sorted_copy (\<lambda>a b. Integer 0) (ascii ''updatedAt'') 0
            [[item_js item_A, JObj [(ascii ''id'', JStr (ascii ''C''))], item_js item_B]]
          = Inr (1, [[item_js item_A, JObj [(ascii ''id'', JStr (ascii ''C''))], item_js item_B],
                     [item_js item_B, item_js item_A, JObj [(ascii ''id'', JStr (ascii ''C''))]]])"
    by (simp add: sorted_copy_def alloc_def sort_in_place_def sort_items_def ebind_def
        compare_items_def item_js_def item_A_def item_B_def js_or_def)
qed

section \<open>Searching\<close>

text \<open>
  Claim C4 says that an item matches when the query occurs in the concatenation of its
  fields. The program puts a line feed between the fields: the query \<open>bc\<close> occurs in
  the concatenation \<open>abcd\<close> of the title \<open>ab\<close> and the content \<open>cd\<close>, and the
  program does not return the item.
\<close>

theorem filter_counterexample:
  "str_includes (ascii_lower (claimed_text item_ab_cd)) (ascii_lower (trim (ascii ''bc'')))
   \<and> filter_items ascii_lower [item_js item_ab_cd] (ascii ''bc'') = Inr []"
  by (simp add: filter_items_def haystack_def item_js_def ebind_def js_or_def js_join_def
      item_ab_cd_def claimed_text_def ascii_lower_def trim_def is_js_ws_def str_includes_def
      sublist_code prefix_code)

text \<open>
  Claim C4, amended. Of a list of items of the data model the filter returns exactly
  those for which the trimmed, lower-cased query occurs in the lower-cased text made of
  title, content, caution and space-joined tags with a line feed between them, in the
  order of the list; and it returns the list as it is when the query is empty or white
  space only (the platform's \<open>toLowerCase\<close> maps the empty string to itself).
\<close>

theorem filter_matches:
  "filter_items toLowerCase (map item_js L) q =
     Inr (map item_js
           (filter (\<lambda>it. str_includes (toLowerCase (searched_text it)) (toLowerCase (trim q))) L))
   \<and> (toLowerCase [] = [] \<and> list_all is_js_ws q \<longrightarrow>
        filter_items toLowerCase (map item_js L) q = Inr (map item_js L))"
proof -
  have a: "filter_items toLowerCase (map item_js L) q =
     Inr (map item_js
           (filter (\<lambda>it. str_includes (toLowerCase (searched_text it)) (toLowerCase (trim q))) L))"
  proof (cases "toLowerCase (trim q) = []")
    case True
    then show ?thesis by (simp add: filter_items_def str_includes_def)
  next
    case False
    have "filter_e (\<lambda>it. ebind (haystack toLowerCase it)
              (\<lambda>hay. Inr (str_includes hay (toLowerCase (trim q))))) (map item_js L)
          = Inr (map item_js
           (filter (\<lambda>it. str_includes (toLowerCase (searched_text it)) (toLowerCase (trim q))) L))"
      by (rule filter_e_map) (simp add: haystack_item ebind_def)
    with False show ?thesis by (simp add: filter_items_def)
  qed
  have b: "toLowerCase [] = [] \<and> list_all is_js_ws q \<longrightarrow>
        filter_items toLowerCase (map item_js L) q = Inr (map item_js L)"
    by (simp add: filter_items_def trim_empty_iff [symmetric])
  from a b show ?thesis by blast
qed

theorem filter_matches_witness:
  "filter_items ascii_lower (map item_js [item_A, item_B]) (ascii '' SHOULDER'') = Inr [item_js item_B]
   \<and> filter_items ascii_lower (map item_js [item_A, item_B]) (ascii ''  '') = Inr [item_js item_A, item_js item_B]"
  using filter_matches [of ascii_lower "[item_A, item_B]" "ascii '' SHOULDER''"]
    filter_matches [of ascii_lower "[item_A, item_B]" "ascii ''  ''"]
  by (simp add: ascii_lower_def trim_def is_js_ws_def str_includes_def searched_text_def
      item_A_def item_B_def sublist_code prefix_code)

section \<open>The token in a link\<close>

lemma stringify_squat:
  \<open>JSON_stringify (JArr [item_js squat]) =
     Some (ascii ''[{"id":"LOYW3V29K3F9ZQ","title":"'' @ [49828, 53244, 53944]
           @ ascii ''","content":"","caution":"","link":"","tags":[],"createdAt":1700000000000,"updatedAt":1700000000000}]'')\<close>
  by (simp add: item_js_def squat_def quote_def is_high_surrogate_def is_low_surrogate_def
      num_finite_def pos_int_to_string_def to_base.simps digit_char_def Let_def)

lemma encode_squat: "encodeData (JArr [item_js squat]) = Inr squat_token"
  using stringify_squat by (simp add: squat_token_def codec_eval)

lemma query_squat: "getQueryParam (share_search squat_token) (ascii ''data'') = JStr squat_token_read"
  by (simp add: squat_token_def squat_token_read_def query_eval)

lemma atob_squat_read: "atob squat_token_read = Inl InvalidCharacterError"
  by (simp add: squat_token_read_def atob_def strip_padding_def is_ascii_ws_def b64_val_def)

text \<open>
  Claim C8 at the list that holds the item \<open>squat\<close>: the token has a plus sign; the
  page that opens the link reads the parameter with a space in its place; that text is
  no base64, and the link loads nothing.
\<close>

theorem share_link_plus:
  "encodeData (JArr [item_js squat]) = Inr squat_token
   \<and> 43 \<in> set squat_token
   \<and> getQueryParam (share_search squat_token) (ascii ''data'') = JStr squat_token_read
   \<and> decodeData squat_token_read = Inl InvalidCharacterError
   \<and> share_link_effect True (share_search squat_token) blank = blank"
proof -
  have plus: "43 \<in> set squat_token" by (simp add: squat_token_def)
  have ne: "squat_token_read \<noteq> []" by (simp add: squat_token_read_def)
  from atob_squat_read have d: "decodeData squat_token_read = Inl InvalidCharacterError"
    by (simp add: decodeData_def ebind_def)
  from query_squat d ne have "share_link_effect True (share_search squat_token) blank = blank"
    by (simp add: share_link_effect_def ebind_def)
  with encode_squat plus query_squat d show ?thesis by simp
qed

section \<open>Editing and deleting an id that no item has\<close>

text \<open>
  Claim C6 says that an update or a delete of an id absent from the list fails with a
  not-found error. The program has no such error: in
  the state \<open>probe\<close>, whose only item has the id \<open>A\<close>, saving the form that edits
  \<open>B\<close> and deleting an item with the id \<open>B\<close> both finish normally, and the list is
  as before.
\<close>

theorem missing_id_counterexample:
  "handleSave 9 9 [] probe = Done (probe\<lparr>selectedId := JStr (ascii ''B''), modalOpen := False\<rparr>)
   \<and> handleDelete True (JObj [(ascii ''id'', JStr (ascii ''B'')), (ascii ''title'', JStr [])]) probe
       = Done probe"
  by (simp add: handleSave_def handleDelete_def probe_def trim_def is_js_ws_def Let_def
      edit_item_def ebind_def item_js_def)

text \<open>
  Claim C6, amended: when no item of the list has the id \<open>i\<close>, saving the form that
  edits \<open>i\<close> (with a title that is not blank) finishes normally, selects \<open>i\<close>, closes
  the form and leaves the list unchanged; deleting an item with the id \<open>i\<close> finishes
  normally and leaves the list unchanged. No error is signalled.
\<close>

theorem missing_id_is_silent:
  assumes absent:
    "\<forall>it \<in> set (items st). \<exists>j. get_prop it (ascii ''id'') = Inr j \<and> \<not> strict_eq j i"
  shows "(truthy i \<and> editingId st = i \<and> trim (title st) \<noteq> [] \<longrightarrow>
            handleSave now uid_now rnd st = Done (st\<lparr>selectedId := i, modalOpen := False\<rparr>))
       \<and> (get_prop item (ascii ''id'') = Inr i
            \<and> (\<exists>shown. ebind (get_prop item (ascii ''title'')) ToString = Inr shown) \<longrightarrow>
            handleDelete True item st =
              Done (st\<lparr>selectedId := (if strict_eq (selectedId st) i then JNull else selectedId st)\<rparr>))"
proof (intro conjI impI)
  assume h: "truthy i \<and> editingId st = i \<and> trim (title st) \<noteq> []"
  have "\<forall>it \<in> set (items st). edit_item st (trim (title st)) now it = Inr it"
    using absent h by (fastforce simp: edit_item_def ebind_def)
  then have "map_e (edit_item st (trim (title st)) now) (items st) = Inr (items st)"
    by (rule map_e_same)
  with h show "handleSave now uid_now rnd st = Done (st\<lparr>selectedId := i, modalOpen := False\<rparr>)"
    by (simp add: handleSave_def Let_def)
next
  assume h: "get_prop item (ascii ''id'') = Inr i
            \<and> (\<exists>shown. ebind (get_prop item (ascii ''title'')) ToString = Inr shown)"
  have "\<forall>it \<in> set (items st).
          ebind (get_prop it (ascii ''id'')) (\<lambda>j. Inr (\<not> strict_eq j i)) = Inr True"
    using absent by (fastforce simp: ebind_def)
  then have "filter_e (\<lambda>it. ebind (get_prop it (ascii ''id'')) (\<lambda>j. Inr (\<not> strict_eq j i))) (items st)
               = Inr (items st)"
    by (rule filter_e_all)
  with h show "handleDelete True item st =
              Done (st\<lparr>selectedId := (if strict_eq (selectedId st) i then JNull else selectedId st)\<rparr>)"
    by (auto simp: handleDelete_def)
qed

theorem missing_id_witness:
  "handleSave 9 9 [] probe = Done (probe\<lparr>selectedId := JStr (ascii ''B''), modalOpen := False\<rparr>)
   \<and> handleDelete True (JObj [(ascii ''id'', JStr (ascii ''B'')), (ascii ''title'', JStr [])]) probe
       = Done (probe\<lparr>selectedId := JNull\<rparr>)"
  using missing_id_is_silent [of probe "JStr (ascii ''B'')" 9 9 "[]"
      "JObj [(ascii ''id'', JStr (ascii ''B'')), (ascii ''title'', JStr [])]"]
  by (simp add: probe_def trim_def is_js_ws_def item_js_def ebind_def)

section \<open>Replacing the list\<close>

text \<open>
  What the import does to one record that it keeps: when no coercion throws, the
  record is rebuilt field by field; when one throws, there is no result.
\<close>

lemma field_obj: "get_prop (JObj kvs) k = Inr (field (JObj kvs) k)"
  by (simp add: field_def split: option.splits)

lemma strings_of_elements:
  "\<not> list_ex (\<lambda>x. isl (ToString x)) xs \<Longrightarrow>
     \<exists>ss. map_e ToString xs = Inr ss \<and> list_all2 text_of (map JStr ss) xs"
proof (induction xs)
  case Nil
  then show ?case by simp
next
  case (Cons x xs)
  then obtain ss where ss: "map_e ToString xs = Inr ss" "list_all2 text_of (map JStr ss) xs"
    by auto
  from Cons.prems obtain s where s: "ToString x = Inr s" by (cases "ToString x") auto
  then have "text_of (JStr s) x" by (simp add: text_of_def)
  with s ss show ?case by simp
qed

lemma element_throws:
  "list_ex (\<lambda>x. isl (ToString x)) xs \<Longrightarrow> \<exists>e. map_e ToString xs = Inl e"
  by (induction xs) (auto split: sum.splits)

lemma map_e_Inl: "x \<in> set xs \<Longrightarrow> f x = Inl e \<Longrightarrow> \<exists>e'. map_e f xs = Inl e'"
  by (induction xs) (auto split: sum.splits)

text \<open>The object that the import writes.\<close>

lemma rebuilt_literal:
  "obj_literal []
     [(ascii ''id'', a), (ascii ''title'', b), (ascii ''content'', c), (ascii ''caution'', d),
      (ascii ''link'', e), (ascii ''tags'', g), (ascii ''createdAt'', h), (ascii ''updatedAt'', i)]
   = JObj
     [(ascii ''id'', a), (ascii ''title'', b), (ascii ''content'', c), (ascii ''caution'', d),
      (ascii ''link'', e), (ascii ''tags'', g), (ascii ''createdAt'', h), (ascii ''updatedAt'', i)]"
  by (simp add: obj_literal_def obj_put_def array_index_def is_digit_def)

lemma string_or_empty:
  assumes "\<not> (truthy x \<and> isl (ToString x))"
  shows "\<exists>s. ToString (js_or x (JStr [])) = Inr s \<and> text_or_empty (JStr s) x"
proof (cases "truthy x")
  case True
  with assms obtain s where "ToString x = Inr s" by (cases "ToString x") auto
  with True show ?thesis by (simp add: js_or_def text_or_empty_def text_of_def)
next
  case False
  then show ?thesis by (simp add: js_or_def text_or_empty_def)
qed

lemma number_or_now:
  assumes "\<not> isl (ToNumber x)"
  shows "\<exists>n. ToNumber x = Inr n \<and> number_or (js_or (JNum n) (JNum (Integer (int now)))) x now"
proof -
  from assms obtain n where "ToNumber x = Inr n" by (cases "ToNumber x") auto
  then show ?thesis by (auto simp: number_or_def js_or_def)
qed

lemma strings_of_tags:
  assumes "\<not> (case x of JArr xs \<Rightarrow> list_ex (\<lambda>x. isl (ToString x)) xs | _ \<Rightarrow> False)"
  shows "\<exists>ss. (case x of JArr xs \<Rightarrow> map_e ToString xs | _ \<Rightarrow> Inr []) = Inr ss
           \<and> texts_of (JArr (map JStr ss)) x"
proof (cases x)
  case (JArr xs)
  with assms have "\<not> list_ex (\<lambda>x. isl (ToString x)) xs" by simp
  from strings_of_elements [OF this] JArr show ?thesis by (simp add: texts_of_def)
qed (simp_all add: texts_of_def)

lemma sanitize_coerced:
  assumes "keep_record d" "\<not> coercion_throws d"
  shows "\<exists>v. sanitize r d = Inr v \<and> coerced r d v \<and> rebuilt v"
proof -
  from assms(1) obtain kvs i t where d: "d = JObj kvs"
    and i: "map_of kvs (ascii ''id'') = Some i" "truthy i"
    and t: "map_of kvs (ascii ''title'') = Some t" "truthy t"
    by (auto simp: keep_record_iff)
  note g = field_obj [of kvs, folded d]
  have fi: "field d (ascii ''id'') = i" and ft: "field d (ascii ''title'') = t"
    using i(1) t(1) by (simp_all add: field_def d)
  from assms(2) have n: "\<not> isl (ToString t)"
    "\<not> (truthy (field d (ascii ''content'')) \<and> isl (ToString (field d (ascii ''content''))))"
    "\<not> (truthy (field d (ascii ''caution'')) \<and> isl (ToString (field d (ascii ''caution''))))"
    "\<not> (truthy (field d (ascii ''link'')) \<and> isl (ToString (field d (ascii ''link''))))"
    "\<not> (case field d (ascii ''tags'') of JArr xs \<Rightarrow> list_ex (\<lambda>x. isl (ToString x)) xs | _ \<Rightarrow> False)"
    "\<not> isl (ToNumber (field d (ascii ''createdAt'')))"
    "\<not> isl (ToNumber (field d (ascii ''updatedAt'')))"
    unfolding coercion_throws_def ft by blast+
  from n(1) obtain ts where ts: "ToString t = Inr ts" by (cases "ToString t") auto
  from string_or_empty [OF n(2)] obtain cs where
    cs: "ToString (js_or (field d (ascii ''content'')) (JStr [])) = Inr cs"
      "text_or_empty (JStr cs) (field d (ascii ''content''))" by blast
  from string_or_empty [OF n(3)] obtain cas where
    cas: "ToString (js_or (field d (ascii ''caution'')) (JStr [])) = Inr cas"
      "text_or_empty (JStr cas) (field d (ascii ''caution''))" by blast
  from string_or_empty [OF n(4)] obtain ls where
    ls: "ToString (js_or (field d (ascii ''link'')) (JStr [])) = Inr ls"
      "text_or_empty (JStr ls) (field d (ascii ''link''))" by blast
  from strings_of_tags [OF n(5)] obtain tgs where
    tgs: "(case field d (ascii ''tags'') of JArr xs \<Rightarrow> map_e ToString xs | _ \<Rightarrow> Inr []) = Inr tgs"
      "texts_of (JArr (map JStr tgs)) (field d (ascii ''tags''))" by blast
  from number_or_now [OF n(6), of "created_now r"] obtain crn where
    crn: "ToNumber (field d (ascii ''createdAt'')) = Inr crn"
      "number_or (js_or (JNum crn) (JNum (Integer (int (created_now r)))))
         (field d (ascii ''createdAt'')) (created_now r)" by blast
  from number_or_now [OF n(7), of "updated_now r"] obtain upn where
    upn: "ToNumber (field d (ascii ''updatedAt'')) = Inr upn"
      "number_or (js_or (JNum upn) (JNum (Integer (int (updated_now r)))))
         (field d (ascii ''updatedAt'')) (updated_now r)" by blast
  let ?v = "JObj
     [(ascii ''id'', i), (ascii ''title'', JStr ts), (ascii ''content'', JStr cs),
      (ascii ''caution'', JStr cas), (ascii ''link'', JStr ls),
      (ascii ''tags'', JArr (map JStr tgs)),
      (ascii ''createdAt'', js_or (JNum crn) (JNum (Integer (int (created_now r))))),
      (ascii ''updatedAt'', js_or (JNum upn) (JNum (Integer (int (updated_now r)))))]"
  from i(2) have ji: "js_or i (JStr (uid_value r)) = i" by (simp add: js_or_def)
  from t(2) have jt: "js_or t (JStr untitled) = t" by (simp add: js_or_def)
  have s: "sanitize r d = Inr ?v"
    unfolding sanitize_def
    by (simp only: ebind_def sum.case g fi ft ji jt ts cs(1) cas(1) ls(1) tgs(1) crn(1) upn(1)
          rebuilt_literal)
  have c: "coerced r d ?v"
    unfolding coerced_def fi ft
    using ts cs(2) cas(2) ls(2) tgs(2) crn(2) upn(2)
    by (simp add: field_def text_of_def)
  have b: "rebuilt ?v"
    using i(2) is_number_or [of crn] is_number_or [of upn]
    by (simp add: rebuilt_def field_def is_string_def is_string_array_def list_all_iff)
  from s c b show ?thesis by blast
qed

lemma ebind_Inl: "m = Inl e \<Longrightarrow> ebind m f = Inl e"
  by (simp add: ebind_def)

lemma ebind_throws: "(\<And>x. m = Inr x \<Longrightarrow> \<exists>e. f x = Inl e) \<Longrightarrow> \<exists>e. ebind m f = Inl e"
  by (cases m) (simp_all add: ebind_def)

lemma isl_throws: "isl m \<Longrightarrow> \<exists>e. ebind m f = Inl e"
  by (cases m) (simp_all add: ebind_def)

lemma sanitize_throws:
  assumes "keep_record d" "coercion_throws d"
  shows "\<exists>e. sanitize r d = Inl e"
proof -
  from assms(1) obtain kvs i t where d: "d = JObj kvs"
    and i: "map_of kvs (ascii ''id'') = Some i" "truthy i"
    and t: "map_of kvs (ascii ''title'') = Some t" "truthy t"
    by (auto simp: keep_record_iff)
  note g = field_obj [of kvs, folded d]
  have ft: "field d (ascii ''title'') = t"
    using t(1) by (simp add: field_def d)
  from t(2) have jt: "js_or t (JStr untitled) = t" by (simp add: js_or_def)
  have o: "isl (ToString (js_or x (JStr []))) \<longleftrightarrow> truthy x \<and> isl (ToString x)" for x
    by (simp add: js_or_def)
  have tg: "isl (case x of JArr xs \<Rightarrow> map_e ToString xs | _ \<Rightarrow> Inr [])
              \<longleftrightarrow> (case x of JArr xs \<Rightarrow> list_ex (\<lambda>x. isl (ToString x)) xs | _ \<Rightarrow> False)" for x
  proof (cases x)
    case (JArr xs)
    show ?thesis
    proof (cases "list_ex (\<lambda>x. isl (ToString x)) xs")
      case True
      from element_throws [OF this] True JArr show ?thesis by auto
    next
      case False
      from strings_of_elements [OF this] False JArr show ?thesis by auto
    qed
  qed simp_all
  have "isl (sanitize r d)"
    using assms(2) unfolding sanitize_def g coercion_throws_def ft o [symmetric] tg [symmetric]
    by (auto simp: ebind_def ft jt split: sum.splits)
  then show ?thesis by (cases "sanitize r d") auto
qed

text \<open>
  The import of an array: the rebuilt records in the order of the records kept, or
  no result when a coercion throws on one of them. And two files evaluated.
\<close>

lemma import_coerced:
  assumes "\<not> list_ex coercion_throws (filter keep_record ds)"
  shows "\<exists>safe. import_records rd (JArr ds) = Inr safe
           \<and> list_all2 (\<lambda>(k, d) v. coerced (rd k) d v)
                (zip [0 ..< length (filter keep_record ds)] (filter keep_record ds)) safe
           \<and> list_all rebuilt safe"
proof -
  let ?kept = "filter keep_record ds"
  let ?kd = "zip [0 ..< length ?kept] ?kept"
  let ?P = "\<lambda>(k, d) v. coerced (rd k) d v \<and> rebuilt v"
  have "\<forall>x \<in> set ?kd. \<exists>v. (\<lambda>(k, d). sanitize (rd k) d) x = Inr v \<and> ?P x v"
  proof
    fix x assume x: "x \<in> set ?kd"
    obtain k d where kd: "x = (k, d)" by (cases x)
    from x kd have "d \<in> set ?kept" by (auto dest: set_zip_rightD)
    with assms have "keep_record d" "\<not> coercion_throws d" by (auto simp: list_ex_iff)
    from sanitize_coerced [OF this, of "rd k"] kd
    show "\<exists>v. (\<lambda>(k, d). sanitize (rd k) d) x = Inr v \<and> ?P x v" by simp
  qed
  from map_e_all2 [OF this] obtain safe where
    s: "map_e (\<lambda>(k, d). sanitize (rd k) d) ?kd = Inr safe" "list_all2 ?P ?kd safe" by blast
  from s(2) have "list_all2 (\<lambda>(k, d) v. coerced (rd k) d v) ?kd safe"
    by (rule list_all2_mono) auto
  moreover from s(2) have "list_all rebuilt safe"
    by (auto simp: list_all_iff list_all2_conv_all_nth in_set_conv_nth split: prod.splits)
  ultimately show ?thesis using s(1) by (simp add: import_records_def)
qed

lemma import_throws:
  assumes "list_ex coercion_throws (filter keep_record ds)"
  shows "\<exists>e. import_records rd (JArr ds) = Inl e"
proof -
  let ?kept = "filter keep_record ds"
  from assms obtain d where d: "d \<in> set ?kept" "coercion_throws d" by (auto simp: list_ex_iff)
  from d(1) obtain k where k: "k < length ?kept" "?kept ! k = d" by (metis in_set_conv_nth)
  then have m: "(k, d) \<in> set (zip [0 ..< length ?kept] ?kept)"
    by (auto simp: in_set_zip intro!: exI [of _ k])
  from d have "keep_record d" by simp
  from sanitize_throws [OF this d(2), of "rd k"] obtain e where "sanitize (rd k) d = Inl e" ..
  then have "(\<lambda>(k, d). sanitize (rd k) d) (k, d) = Inl e" by simp
  from map_e_Inl [where f = "\<lambda>(k, d). sanitize (rd k) d", OF m this]
  show ?thesis by (simp add: import_records_def)
qed

lemma parse_loose: "JSON_parse loose_file = Inr (JArr loose_records)"
  by (simp add: loose_file_def loose_records_def parse_eval)

lemma parse_throwing: "JSON_parse throwing_file = Inr (JArr throwing_records)"
  by (simp add: throwing_file_def throwing_records_def parse_eval)

lemma twelve: "StringToNumber (ascii ''12'') = Integer 12"
  by (simp add: StringToNumber_def trim_def is_js_ws_def unsigned_decimal_def is_digit_def
      exponent_part_def decimal_value_def digits_value_def from_digits_def Let_def)

lemma kept_loose: "filter keep_record loose_records = [loose_records ! 1]"
  by (simp add: loose_records_def keep_record_def)

lemma import_loose:
  "importJSON fixed_reads loose_file probe = Done (probe\<lparr>items := [loose_rebuilt]\<rparr>)"
  using parse_loose twelve
  by (simp add: importJSON_def import_records_def loose_records_def loose_rebuilt_def
      fixed_reads_def keep_record_def sanitize_def ebind_def js_or_def obj_literal_def
      obj_put_def array_index_def is_digit_def pos_int_to_string_def to_base.simps
      digit_char_def Let_def)

text \<open>
  Claim C7 says that a link's record that lacks id or title is coerced with defaults,
  and that on both paths the kept records have their fields coerced. The link's path
  stores the decoded array as it is: the record without a title of \<open>untitled_token\<close>
  becomes the list, neither dropped nor rebuilt.
\<close>

theorem share_link_keeps_untitled:
  "share_link_effect True (share_search untitled_token) probe
     = probe\<lparr>items := [JObj [(ascii ''id'', JStr (ascii ''x''))]]\<rparr>
   \<and> load_from_link True (UrlWithSearch (share_search untitled_token)) probe
     = Done (probe\<lparr>items := [JObj [(ascii ''id'', JStr (ascii ''x''))]]\<rparr>)
   \<and> \<not> keep_record (JObj [(ascii ''id'', JStr (ascii ''x''))])
   \<and> \<not> rebuilt (JObj [(ascii ''id'', JStr (ascii ''x''))])"
  using decode_untitled query_untitled
  by (simp add: share_link_effect_def load_from_link_def untitled_token_def ebind_def
      keep_record_def rebuilt_def)

text \<open>
  Claim C7, amended. On the import path a record is kept exactly when it is an object
  whose id and title are not falsy, and the others are dropped. A text that does not
  parse to an array ends in the failure alert, and so does an array with a kept record
  on which a coercion throws: the list stays as it was. Otherwise, for records whose
  numbers are integers that a number holds exactly, the import replaces the list by the
  rebuilt records, one for each kept record and in their order: each has exactly the
  eight properties, the id as it came, the title as a string, content, caution and
  link as strings and the empty string when falsy, tags as the array of the strings of
  its elements and the empty array when it is no array, each timestamp as a number and
  the reading of the clock when that number is zero or no number. On the path of a link,
  from the address of the page or pasted, the decoded array replaces the list as it is,
  with no record dropped or rebuilt.
\<close>

theorem replace_all_paths:
  "(keep_record d \<longleftrightarrow>
        (\<exists>kvs i t. d = JObj kvs \<and> map_of kvs (ascii ''id'') = Some i \<and> truthy i
           \<and> map_of kvs (ascii ''title'') = Some t \<and> truthy t))
   \<and> ((\<forall>ds. JSON_parse input \<noteq> Inr (JArr ds)) \<longrightarrow> importJSON rd input st = Alert import_failed)
   \<and> (JSON_parse input = Inr (JArr ds) \<and> list_ex coercion_throws (filter keep_record ds) \<longrightarrow>
        importJSON rd input st = Alert import_failed)
   \<and> (JSON_parse input = Inr (JArr ds) \<and> \<not> list_ex coercion_throws (filter keep_record ds)
        \<and> list_all exact_record ds \<longrightarrow>
        (\<exists>safe. importJSON rd input st = Done (st\<lparr>items := safe\<rparr>)
           \<and> list_all2 (\<lambda>(k, d) v. coerced (rd k) d v)
                (zip [0 ..< length (filter keep_record ds)] (filter keep_record ds)) safe
           \<and> list_all rebuilt safe))
   \<and> (getQueryParam search (ascii ''data'') = JStr q \<and> q \<noteq> [] \<and> decodeData q = Inr (JArr xs) \<longrightarrow>
        share_link_effect True search st = st\<lparr>items := xs\<rparr>
        \<and> load_from_link True (UrlWithSearch search) st = Done (st\<lparr>items := xs\<rparr>))"
proof (intro conjI impI)
  show "keep_record d \<longleftrightarrow>
        (\<exists>kvs i t. d = JObj kvs \<and> map_of kvs (ascii ''id'') = Some i \<and> truthy i
           \<and> map_of kvs (ascii ''title'') = Some t \<and> truthy t)"
    by (rule keep_record_iff)
next
  assume n: "\<forall>ds. JSON_parse input \<noteq> Inr (JArr ds)"
  show "importJSON rd input st = Alert import_failed"
  proof (cases "JSON_parse input")
    case (Inl e)
    then show ?thesis by (simp add: importJSON_def ebind_def)
  next
    case (Inr v)
    with n have "import_records rd v = Inl FormatError"
      by (cases v) (simp_all add: import_records_def)
    with Inr show ?thesis by (simp add: importJSON_def ebind_def)
  qed
next
  assume h: "JSON_parse input = Inr (JArr ds) \<and> list_ex coercion_throws (filter keep_record ds)"
  then obtain e where "import_records rd (JArr ds) = Inl e" using import_throws by blast
  with h show "importJSON rd input st = Alert import_failed"
    by (simp add: importJSON_def ebind_def)
next
  assume h: "JSON_parse input = Inr (JArr ds) \<and> \<not> list_ex coercion_throws (filter keep_record ds)
        \<and> list_all exact_record ds"
  then have "\<not> list_ex coercion_throws (filter keep_record ds)" by blast
  from import_coerced [OF this, of rd] obtain safe where
    s: "import_records rd (JArr ds) = Inr safe"
      "list_all2 (\<lambda>(k, d) v. coerced (rd k) d v)
         (zip [0 ..< length (filter keep_record ds)] (filter keep_record ds)) safe"
      "list_all rebuilt safe" by blast
  from h s(1) have "importJSON rd input st = Done (st\<lparr>items := safe\<rparr>)"
    by (simp add: importJSON_def ebind_def)
  with s(2,3) show "\<exists>safe. importJSON rd input st = Done (st\<lparr>items := safe\<rparr>)
           \<and> list_all2 (\<lambda>(k, d) v. coerced (rd k) d v)
                (zip [0 ..< length (filter keep_record ds)] (filter keep_record ds)) safe
           \<and> list_all rebuilt safe" by blast
next
  assume h: "getQueryParam search (ascii ''data'') = JStr q \<and> q \<noteq> [] \<and> decodeData q = Inr (JArr xs)"
  then show "share_link_effect True search st = st\<lparr>items := xs\<rparr>"
    by (simp add: share_link_effect_def ebind_def)
  from h show "load_from_link True (UrlWithSearch search) st = Done (st\<lparr>items := xs\<rparr>)"
    by (simp add: load_from_link_def ebind_def)
qed

theorem replace_all_paths_witness:
  "keep_record (loose_records ! 1)
   \<and> importJSON fixed_reads [] probe = Alert import_failed
   \<and> importJSON fixed_reads throwing_file probe = Alert import_failed
   \<and> (\<exists>safe. importJSON fixed_reads loose_file probe = Done (probe\<lparr>items := safe\<rparr>)
        \<and> list_all2 (\<lambda>(k, d) v. coerced (fixed_reads k) d v) [(0, loose_records ! 1)] safe
        \<and> list_all rebuilt safe)
   \<and> importJSON fixed_reads loose_file probe = Done (probe\<lparr>items := [loose_rebuilt]\<rparr>)
   \<and> share_link_effect True (share_search untitled_token) probe
       = probe\<lparr>items := [JObj [(ascii ''id'', JStr (ascii ''x''))]]\<rparr>"
proof -
  note loose = replace_all_paths [where rd = fixed_reads and input = loose_file
      and ds = loose_records and d = "loose_records ! 1" and st = probe
      and search = "share_search untitled_token" and q = untitled_token
      and xs = "[JObj [(ascii ''id'', JStr (ascii ''x''))]]"]
  note throwing = replace_all_paths [where rd = fixed_reads and input = throwing_file
      and ds = throwing_records and st = probe]
  note unreadable = replace_all_paths [where rd = fixed_reads and input = "[]" and st = probe]
  have kept: "keep_record (loose_records ! 1)"
    by (simp add: loose_records_def keep_record_def)
  have none: "\<forall>ds. JSON_parse [] \<noteq> Inr (JArr ds)" by (simp add: JSON_parse_empty)
  from unreadable none have a1: "importJSON fixed_reads [] probe = Alert import_failed" by blast
  have "list_ex coercion_throws (filter keep_record throwing_records)"
    by (simp add: throwing_records_def keep_record_def coercion_throws_def field_def)
  with throwing parse_throwing
  have a2: "importJSON fixed_reads throwing_file probe = Alert import_failed" by blast
  have quiet: "\<not> list_ex coercion_throws (filter keep_record loose_records)"
    unfolding kept_loose using twelve
    by (simp add: loose_records_def coercion_throws_def field_def del: num_to_string.simps)
  have ex: "list_all exact_record loose_records"
    using twelve
    by (simp add: loose_records_def exact_record_def exact_read_def exact_number_def
        safe_int_def field_def)
  from loose parse_loose quiet ex
  have "\<exists>safe. importJSON fixed_reads loose_file probe = Done (probe\<lparr>items := safe\<rparr>)
        \<and> list_all2 (\<lambda>(k, d) v. coerced (fixed_reads k) d v)
            (zip [0 ..< length (filter keep_record loose_records)] (filter keep_record loose_records))
            safe
        \<and> list_all rebuilt safe" by blast
  then have a3: "\<exists>safe. importJSON fixed_reads loose_file probe = Done (probe\<lparr>items := safe\<rparr>)
        \<and> list_all2 (\<lambda>(k, d) v. coerced (fixed_reads k) d v) [(0, loose_records ! 1)] safe
        \<and> list_all rebuilt safe"
    unfolding kept_loose by simp
  have ne: "untitled_token \<noteq> []" by (simp add: untitled_token_def)
  from loose query_untitled decode_untitled ne
  have a4: "share_link_effect True (share_search untitled_token) probe
       = probe\<lparr>items := [JObj [(ascii ''id'', JStr (ascii ''x''))]]\<rparr>" by blast
  from kept a1 a2 a3 import_loose a4 show ?thesis by blast
qed

section \<open>The order of the timestamps\<close>

text \<open>
  Claim C9 says that \<open>updatedAt\<close> is never below \<open>createdAt\<close>, whatever operations
  made the list, imports included. The import takes the timestamps of the file as they
  are: importing the text \<open>backdated_file\<close> makes a list whose item was updated at 3
  and created at 5.
\<close>

lemma parse_backdated:
  "JSON_parse backdated_file =
     Inr (JArr [JObj [(ascii ''id'', JStr (ascii ''a'')), (ascii ''title'', JStr (ascii ''b'')),
                      (ascii ''createdAt'', JNum (Integer 5)), (ascii ''updatedAt'', JNum (Integer 3))]])"
  by (simp add: backdated_file_def parse_eval)

theorem import_breaks_order:
  "importJSON no_reads backdated_file probe =
     Done (probe\<lparr>items := [item_js \<lparr>item_id = ascii ''a'', item_title = ascii ''b'',
        item_content = [], item_caution = [], item_link = [], item_tags = [],
        item_createdAt = 5, item_updatedAt = 3\<rparr>]\<rparr>)
   \<and> \<not> ordered_stamps (item_js \<lparr>item_id = ascii ''a'', item_title = ascii ''b'',
        item_content = [], item_caution = [], item_link = [], item_tags = [],
        item_createdAt = 5, item_updatedAt = 3\<rparr>)"
  using parse_backdated
  by (simp add: importJSON_def import_records_def keep_record_def sanitize_def ebind_def js_or_def
      obj_literal_def obj_put_def array_index_def is_digit_def item_js_def ordered_stamps_def)

text \<open>Editing, adding and deleting keep every item dated.\<close>

lemma dated_obj:
  assumes "dated t it"
  obtains kvs c u where "it = JObj kvs" "map_of kvs (ascii ''createdAt'') = Some (JNum (Integer c))"
    "map_of kvs (ascii ''updatedAt'') = Some (JNum (Integer u))" "c \<le> u" "c \<le> int t"
proof (cases it)
  case (JObj kvs)
  with assms obtain c where c: "map_of kvs (ascii ''createdAt'') = Some (JNum (Integer c))"
    by (auto simp: dated_def ordered_stamps_def split: option.splits jsval.splits jsnum.splits)
  with assms JObj obtain u where u: "map_of kvs (ascii ''updatedAt'') = Some (JNum (Integer u))"
    by (auto simp: dated_def ordered_stamps_def split: option.splits jsval.splits jsnum.splits)
  from assms JObj c u have "c \<le> u" "c \<le> int t"
    by (auto simp: dated_def ordered_stamps_def stamp_def)
  with JObj c u that show ?thesis by blast
qed (use assms in \<open>simp_all add: dated_def ordered_stamps_def\<close>)

lemma edit_item_dated:
  assumes "dated t it" "t \<le> now" "edit_item st tt now it = Inr v"
  shows "dated now v"
proof -
  from assms(1) obtain kvs c u where it: "it = JObj kvs"
    "map_of kvs (ascii ''createdAt'') = Some (JNum (Integer c))"
    "map_of kvs (ascii ''updatedAt'') = Some (JNum (Integer u))" "c \<le> u" "c \<le> int t"
    by (rule dated_obj)
  show ?thesis
  proof (cases "strict_eq (case map_of kvs (ascii ''id'') of None \<Rightarrow> JUndefined | Some i \<Rightarrow> i) (editingId st)")
    case False
    with assms it have "v = it" by (auto simp: edit_item_def ebind_def split: option.splits)
    with it assms(2) show ?thesis by (simp add: dated_def ordered_stamps_def stamp_def)
  next
    case True
    with assms(3) it(1) have "v = obj_literal kvs
                   [(ascii ''title'', JStr tt),
                    (ascii ''content'', JStr (content st)),
                    (ascii ''caution'', JStr (caution st)),
                    (ascii ''link'', JStr (link st)),
                    (ascii ''tags'', JArr (map JStr (form_tags (tagsText st)))),
                    (ascii ''updatedAt'', JNum (Integer (int now)))]"
      by (auto simp: edit_item_def ebind_def split: option.splits)
    with it assms(2) show ?thesis
      by (simp add: dated_def ordered_stamps_def stamp_def obj_literal_def map_of_obj_put)
  qed
qed

lemma dated_mono: "dated t it \<Longrightarrow> t \<le> now \<Longrightarrow> dated now it"
  by (simp add: dated_def)

lemma new_item_dated: "dated now (new_item i t st now)"
  by (simp add: new_item_js item_js_def dated_def ordered_stamps_def stamp_def)

lemma handleSave_dated:
  assumes "\<forall>it \<in> set (items st). dated t it" "t \<le> now" "handleSave now uid_now rnd st = Done st'"
  shows "\<forall>it \<in> set (items st'). dated now it"
proof (cases "trim (title st) = []")
  case True
  with assms(3) show ?thesis by (simp add: handleSave_def)
next
  case titled: False
  show ?thesis
  proof (cases "truthy (editingId st)")
    case True
    show ?thesis
    proof (cases "map_e (edit_item st (trim (title st)) now) (items st)")
      case (Inl e)
      with assms(3) titled True show ?thesis by (simp add: handleSave_def Let_def)
    next
      case (Inr ys)
      with assms(3) titled True have st': "items st' = ys"
        by (auto simp add: handleSave_def Let_def)
      show ?thesis
      proof
        fix y assume "y \<in> set (items st')"
        with st' have "y \<in> set ys" by simp
        from map_e_set [OF Inr this] obtain x where x: "x \<in> set (items st)"
          "edit_item st (trim (title st)) now x = Inr y" by blast
        from assms(1) x(1) have "dated t x" by blast
        from this assms(2) x(2) show "dated now y" by (rule edit_item_dated)
      qed
    qed
  next
    case False
    with assms(3) titled
    have "items st' = new_item (uid uid_now rnd) (trim (title st)) st now # items st"
      by (auto simp add: handleSave_def Let_def)
    with assms(1,2) show ?thesis by (auto simp: new_item_dated intro: dated_mono)
  qed
qed

lemma handleDelete_dated:
  assumes "\<forall>it \<in> set (items st). dated t it" "handleDelete confirmed item st = Done st'"
  shows "\<forall>it \<in> set (items st'). dated t it"
proof -
  from assms(2) have "items st' = items st \<or> (\<exists>p. filter_e p (items st) = Inr (items st'))"
    by (auto simp: handleDelete_def split: sum.splits if_splits)
  then have "set (items st') \<subseteq> set (items st)"
  proof
    assume "items st' = items st"
    then show ?thesis by simp
  next
    assume "\<exists>p. filter_e p (items st) = Inr (items st')"
    then obtain p where "filter_e p (items st) = Inr (items st')" ..
    then show ?thesis by (rule filter_e_set)
  qed
  with assms(1) show ?thesis by blast
qed

lemma reachable_dated: "reachable t st \<Longrightarrow> \<forall>it \<in> set (items st). dated t it"
proof (induction rule: reachable.induct)
  case (start st t)
  then show ?case by simp
next
  case (typing t st st')
  then show ?case by simp
next
  case (save t st now uid_now rnd st')
  from save.IH save.hyps(2,3) show ?case by (rule handleSave_dated)
next
  case (delete t st confirmed item st')
  from delete.IH delete.hyps(2) show ?case by (rule handleDelete_dated)
qed

text \<open>
  Claim C9, amended: in every state that saving (adding or editing) and deleting
  produce from an empty list, with a clock that does not go back, every item has
  \<open>updatedAt\<close> not below \<open>createdAt\<close>.
\<close>

theorem stamps_ordered:
  "reachable t st \<Longrightarrow> list_all ordered_stamps (items st)"
  using reachable_dated [of t st] by (simp add: list_all_iff dated_def)

theorem stamps_ordered_witness:
  "reachable 1700000000000
     (blank\<lparr>items := [new_item (uid 1700000000001 (ascii ''k3f9zq'')) (ascii ''Knee Bend'') blank 1700000000000],
            selectedId := JStr (uid 1700000000001 (ascii ''k3f9zq'')),
            modalOpen := False\<rparr>)
   \<and> list_all ordered_stamps
       [new_item (uid 1700000000001 (ascii ''k3f9zq'')) (ascii ''Knee Bend'') blank 1700000000000]"
proof -
  have r0: "reachable 0 blank"
    by (rule reachable.start) (simp add: blank_def)
  have t: "trim (title blank) = ascii ''Knee Bend''"
    by (simp add: blank_def probe_def trim_def is_js_ws_def)
  have e: "\<not> truthy (editingId blank)" "items blank = []"
    by (simp_all add: blank_def)
  have s: "handleSave 1700000000000 1700000000001 (ascii ''k3f9zq'') blank
      = Done (blank\<lparr>items := [new_item (uid 1700000000001 (ascii ''k3f9zq'')) (ascii ''Knee Bend'') blank 1700000000000],
            selectedId := JStr (uid 1700000000001 (ascii ''k3f9zq'')),
            modalOpen := False\<rparr>)"
    using t e by (simp add: handleSave_def Let_def)
  have r1: "reachable 1700000000000
     (blank\<lparr>items := [new_item (uid 1700000000001 (ascii ''k3f9zq'')) (ascii ''Knee Bend'') blank 1700000000000],
            selectedId := JStr (uid 1700000000001 (ascii ''k3f9zq'')),
            modalOpen := False\<rparr>)"
    by (rule reachable.save [OF r0 _ s]) simp
  from r1 stamps_ordered [OF r1] show ?thesis by simp
qed

section \<open>The frame of editing and deleting\<close>

text \<open>
  Claim C10. In a list whose items all have a readable id: saving an edit keeps the
  length of the list, keeps the id at every position, and leaves every item that does
  not carry the edited id as it is; deleting an item whose id is a string, as the ids
  of the data model are, leaves exactly the items that do not carry its id, each as it
  is and in their order.
\<close>

theorem update_delete_frame:
  assumes readable: "\<forall>it \<in> set (items st). \<exists>j. get_prop it (ascii ''id'') = Inr j"
  shows "(truthy (editingId st) \<and> trim (title st) \<noteq> [] \<longrightarrow>
           (\<exists>st'. handleSave now uid_now rnd st = Done st'
              \<and> length (items st') = length (items st)
              \<and> (\<forall>k < length (items st).
                    get_prop (items st' ! k) (ascii ''id'') = get_prop (items st ! k) (ascii ''id'')
                    \<and> (\<not> has_id (items st ! k) (editingId st) \<longrightarrow> items st' ! k = items st ! k))))
       \<and> (get_prop item (ascii ''id'') = Inr (JStr i)
            \<and> (\<exists>shown. ebind (get_prop item (ascii ''title'')) ToString = Inr shown) \<longrightarrow>
           (\<exists>st'. handleDelete True item st = Done st'
              \<and> items st' = filter (\<lambda>it. \<not> has_id it (JStr i)) (items st)))"
proof (intro conjI impI)
  assume h: "truthy (editingId st) \<and> trim (title st) \<noteq> []"
  let ?P = "\<lambda>old new. get_prop new (ascii ''id'') = get_prop old (ascii ''id'')
              \<and> (\<not> has_id old (editingId st) \<longrightarrow> new = old)"
  have "\<forall>it \<in> set (items st). \<exists>v. edit_item st (trim (title st)) now it = Inr v \<and> ?P it v"
  proof
    fix it assume "it \<in> set (items st)"
    with readable obtain j where j: "get_prop it (ascii ''id'') = Inr j" by blast
    from edit_item_id [OF j, of st "trim (title st)" now] h j
    show "\<exists>v. edit_item st (trim (title st)) now it = Inr v \<and> ?P it v"
      by (auto simp: has_id_def)
  qed
  then obtain ys where ys: "map_e (edit_item st (trim (title st)) now) (items st) = Inr ys"
    and rel: "list_all2 ?P (items st) ys"
    using map_e_all2 [of "items st" "edit_item st (trim (title st)) now" ?P] by blast
  from rel have "length ys = length (items st)"
    and "\<forall>k < length (items st). ?P (items st ! k) (ys ! k)"
    by (auto simp: list_all2_conv_all_nth)
  with h ys show "\<exists>st'. handleSave now uid_now rnd st = Done st'
              \<and> length (items st') = length (items st)
              \<and> (\<forall>k < length (items st).
                    get_prop (items st' ! k) (ascii ''id'') = get_prop (items st ! k) (ascii ''id'')
                    \<and> (\<not> has_id (items st ! k) (editingId st) \<longrightarrow> items st' ! k = items st ! k))"
    by (simp add: handleSave_def Let_def)
next
  assume h: "get_prop item (ascii ''id'') = Inr (JStr i)
            \<and> (\<exists>shown. ebind (get_prop item (ascii ''title'')) ToString = Inr shown)"
  have "\<And>it. it \<in> set (items st) \<Longrightarrow>
          ebind (get_prop it (ascii ''id'')) (\<lambda>j. Inr (\<not> strict_eq j (JStr i)))
            = Inr (\<not> has_id it (JStr i))"
    using readable by (fastforce simp: ebind_def has_id_def)
  then have "filter_e (\<lambda>it. ebind (get_prop it (ascii ''id'')) (\<lambda>j. Inr (\<not> strict_eq j (JStr i))))
               (items st)
               = Inr (filter (\<lambda>it. \<not> has_id it (JStr i)) (items st))"
    by (rule filter_e_Inr)
  with h show "\<exists>st'. handleDelete True item st = Done st'
              \<and> items st' = filter (\<lambda>it. \<not> has_id it (JStr i)) (items st)"
    by (auto simp: handleDelete_def)
qed

theorem update_delete_frame_witness:
  "(\<exists>st'. handleSave 9 9 [] two_items = Done st'
      \<and> length (items st') = 2 \<and> items st' ! 1 = item_js item_B)
   \<and> (\<exists>st'. handleDelete True (item_js item_A) two_items = Done st'
      \<and> items st' = [item_js item_B])"
proof -
  have its: "items two_items = [item_js item_A, item_js item_B]"
    by (simp add: two_items_def)
  have idA: "get_prop (item_js item_A) (ascii ''id'') = Inr (JStr (ascii ''A''))"
    and idB: "get_prop (item_js item_B) (ascii ''id'') = Inr (JStr (ascii ''B''))"
    by (simp_all add: item_js_def item_A_def item_B_def)
  have readable: "\<forall>it \<in> set (items two_items). \<exists>j. get_prop it (ascii ''id'') = Inr j"
    using idA idB by (simp add: its)
  have form: "truthy (editingId two_items) \<and> trim (title two_items) \<noteq> []"
    by (simp add: two_items_def trim_def is_js_ws_def)
  have shown: "\<exists>shown. ebind (get_prop (item_js item_A) (ascii ''title'')) ToString = Inr shown"
    by (simp add: item_js_def ebind_def)
  have notA: "\<not> has_id (items two_items ! 1) (editingId two_items)"
    using idB by (simp add: its has_id_def two_items_def)
  have keep: "filter (\<lambda>it. \<not> has_id it (JStr (ascii ''A''))) (items two_items) = [item_js item_B]"
    using idA idB by (simp add: its has_id_def)
  from update_delete_frame [OF readable, of 9 9 "[]" "item_js item_A" "ascii ''A''"]
    form idA shown notA keep
  show ?thesis by (auto simp: its)
qed

end
